theory Spec2Isabelle
  imports Main "HOL-Library.AList" "HOL-Library.Word"
begin

section \<open>Configuration (cmn/config.go)\<close>

text \<open>
  \<^verbatim>\<open>time.Duration\<close> is a signed 64-bit count of nanoseconds and \<^verbatim>\<open>uint64\<close> an unsigned one;
  both are 64-bit words here, so that \<open>*\<close> wraps as it does in Go.  Go's \<^verbatim>\<open>int\<close> port
  numbers are only compared, never computed with, and are integers.
\<close>

type_synonym duration = "64 word"

record LogConf =
  Dir :: string
  Level :: string
  MaxSize :: "64 word"

record PeriodConf =
  StatsTime :: duration
  RetrySyncTime :: duration

record TimeoutConf =
  MaxKeepalive :: duration
  CplaneOperation :: duration

record ProxyConf =
  PrimaryURL :: string

record L4Conf =
  PortStr :: string
  Port :: int
  PortIntraControlStr :: string
  PortIntraControl :: int
  PortIntraDataStr :: string
  PortIntraData :: int

record HTTPConf =
  Proto :: string
  RevProxy :: string
  UseHTTPS :: bool

record NetConf =
  IPv4 :: string
  IPv4IntraControl :: string
  IPv4IntraData :: string
  UseIntraControl :: bool
  UseIntraData :: bool
  L4 :: L4Conf
  HTTP :: HTTPConf

record Config =
  Log :: LogConf
  Periodic :: PeriodConf
  Timeout :: TimeoutConf
  Proxy :: ProxyConf
  Net :: NetConf

record ConfigCLI =
  ConfFile :: string
  LogLevel :: string
  cli_StatsTime :: duration
  ProxyURL :: string

text \<open>
  What \<^verbatim>\<open>LoadConfig\<close> calls but this repository's sources do not define, or what touches
  the file system and the flag table, is an input: the result of \<^verbatim>\<open>LocalLoad\<close> on the
  configuration file, whether setting the \<^verbatim>\<open>log_dir\<close> flag and creating the log directory
  succeed, \<^verbatim>\<open>ParsePort\<close> (\<open>None\<close> is its error return), whether the \<^verbatim>\<open>v\<close> flag accepts a
  level, and the constants \<^verbatim>\<open>cmn.GiB\<close>, \<^verbatim>\<open>cmn.MiB\<close>.  \<open>validate_head\<close> stands for the part of
  \<^verbatim>\<open>validateConfig\<close> above its comment \<^verbatim>\<open>// NETWORK\<close>: it parses durations and sizes and
  checks the sections other than \<^verbatim>\<open>Net\<close>, which it neither reads nor writes; \<open>None\<close> is its
  error return.
\<close>

record load_env =
  LocalLoad :: "string \<Rightarrow> Config option"
  flag_set_log_dir :: "string \<Rightarrow> bool"
  CreateDir :: "string \<Rightarrow> bool"
  validate_head :: "Config \<Rightarrow> Config option"
  ParsePort :: "string \<Rightarrow> int option"
  flag_set_v :: "string \<Rightarrow> bool"
  GiB :: "64 word"
  MiB :: "64 word"

datatype exit = Exit1

record loaded =
  ld_config :: Config
  ld_changed :: bool
  glog_MaxSize :: "64 word"

definition SetLogLevel :: "load_env \<Rightarrow> Config \<Rightarrow> string \<Rightarrow> Config option" where
  "SetLogLevel e config loglevel =
     (if flag_set_v e loglevel
      then Some (config\<lparr>Log := (Log config)\<lparr>Level := loglevel\<rparr>\<rparr>)
      else None)"

definition glog_rotate :: "load_env \<Rightarrow> Config \<Rightarrow> 64 word" where
  "glog_rotate e config =
     (if MaxSize (Log config) > GiB e then MiB e else MaxSize (Log config))"

text \<open>
  Go's \<^verbatim>\<open>strings.Replace(s, " ", "", -1)\<close>, \<^verbatim>\<open>strings.Split(s, ",")\<close>,
  \<^verbatim>\<open>strings.Contains\<close> and \<^verbatim>\<open>strings.TrimSpace\<close> on byte strings; of the white space that
  \<^verbatim>\<open>TrimSpace\<close> removes only the ASCII characters (tab, line feed, vertical tab, form feed,
  carriage return, space) are covered.
\<close>

definition remove_spaces :: "string \<Rightarrow> string" where
  "remove_spaces s = filter (\<lambda>c. c \<noteq> CHR '' '') s"

primrec Split :: "char \<Rightarrow> string \<Rightarrow> string list" where
  "Split sep [] = [[]]"
| "Split sep (c # cs) =
     (if c = sep then [] # Split sep cs
      else (case Split sep cs of [] \<Rightarrow> [[c]] | w # ws \<Rightarrow> (c # w) # ws))"

fun HasPrefix :: "string \<Rightarrow> string \<Rightarrow> bool" where
  "HasPrefix s [] = True"
| "HasPrefix [] (d # ds) = False"
| "HasPrefix (c # cs) (d # ds) = (c = d \<and> HasPrefix cs ds)"

fun Contains :: "string \<Rightarrow> string \<Rightarrow> bool" where
  "Contains [] sub = (sub = [])"
| "Contains (c # cs) sub = (HasPrefix (c # cs) sub \<or> Contains cs sub)"

definition isSpace :: "char \<Rightarrow> bool" where
  "isSpace c = (c \<in> set [CHR 0x09, CHR 0x0A, CHR 0x0B, CHR 0x0C, CHR 0x0D, CHR '' ''])"

definition TrimSpace :: "string \<Rightarrow> string" where
  "TrimSpace s = rev (dropWhile isSpace (rev (dropWhile isSpace s)))"

text \<open>
  \<^verbatim>\<open>ipv4ListsOverlap\<close>: whether some address of the comma-separated list \<open>alist\<close> occurs in
  \<open>blist\<close>.  The address it also returns is used in the error message only.
\<close>

definition ipv4ListsOverlap :: "string \<Rightarrow> string \<Rightarrow> bool" where
  "ipv4ListsOverlap alist blist =
     (if alist = '''' \<or> blist = '''' then False
      else list_ex (\<lambda>a. TrimSpace a \<noteq> '''' \<and> Contains blist (TrimSpace a))
             (Split CHR '','' alist))"

definition RevProxyCloud :: string where "RevProxyCloud = ''cloud''"
definition RevProxyTarget :: string where "RevProxyTarget = ''target''"

text \<open>
  The network section of \<^verbatim>\<open>validateConfig\<close>: it parses the three ports (an intra port with
  an empty string is 0), removes the spaces of the three address lists, and rejects lists
  that overlap and an unknown reverse-proxy mode.
\<close>

definition parse_intra_port :: "load_env \<Rightarrow> string \<Rightarrow> int option" where
  "parse_intra_port e str = (if str \<noteq> '''' then ParsePort e str else Some 0)"

definition validate_net :: "load_env \<Rightarrow> NetConf \<Rightarrow> NetConf option" where
  "validate_net e net0 =
     (case ParsePort e (PortStr (L4 net0)) of
        None \<Rightarrow> None
      | Some port \<Rightarrow>
     (case parse_intra_port e (PortIntraControlStr (L4 net0)) of
        None \<Rightarrow> None
      | Some portIntraControl \<Rightarrow>
     (case parse_intra_port e (PortIntraDataStr (L4 net0)) of
        None \<Rightarrow> None
      | Some portIntraData \<Rightarrow>
          (let net = net0\<lparr>L4 := (L4 net0)\<lparr>Port := port, PortIntraControl := portIntraControl,
                                             PortIntraData := portIntraData\<rparr>,
                           IPv4 := remove_spaces (IPv4 net0),
                           IPv4IntraControl := remove_spaces (IPv4IntraControl net0),
                           IPv4IntraData := remove_spaces (IPv4IntraData net0)\<rparr>
           in if ipv4ListsOverlap (IPv4 net) (IPv4IntraControl net) then None
              else if ipv4ListsOverlap (IPv4 net) (IPv4IntraData net) then None
              else if ipv4ListsOverlap (IPv4IntraControl net) (IPv4IntraData net) then None
              else if RevProxy (HTTP net) \<noteq> '''' \<and> RevProxy (HTTP net) \<noteq> RevProxyCloud
                      \<and> RevProxy (HTTP net) \<noteq> RevProxyTarget then None
              else Some net))))"

definition validateConfig :: "load_env \<Rightarrow> Config \<Rightarrow> Config option" where
  "validateConfig e config =
     (case validate_head e config of
        None \<Rightarrow> None
      | Some config' \<Rightarrow>
          (case validate_net e (Net config) of
             None \<Rightarrow> None
           | Some net \<Rightarrow> Some (config'\<lparr>Net := net\<rparr>)))"

definition set_proto :: "Config \<Rightarrow> Config" where
  "set_proto config =
     config\<lparr>Net := (Net config)\<lparr>HTTP := (HTTP (Net config))
        \<lparr>Proto := (if UseHTTPS (HTTP (Net config)) then ''https'' else ''http'')\<rparr>\<rparr>\<rparr>"

definition set_intra_control :: "Config \<Rightarrow> Config" where
  "set_intra_control config =
     (let differentIPs = (IPv4 (Net config) \<noteq> IPv4IntraControl (Net config));
          differentPorts = (Port (L4 (Net config)) \<noteq> PortIntraControl (L4 (Net config)))
      in config\<lparr>Net := (Net config)\<lparr>UseIntraControl :=
           (IPv4IntraControl (Net config) \<noteq> '''' \<and> PortIntraControl (L4 (Net config)) \<noteq> 0
              \<and> (differentIPs \<or> differentPorts))\<rparr>\<rparr>)"

definition set_intra_data :: "Config \<Rightarrow> Config" where
  "set_intra_data config =
     (let differentIPs = (IPv4 (Net config) \<noteq> IPv4IntraData (Net config));
          differentPorts = (Port (L4 (Net config)) \<noteq> PortIntraData (L4 (Net config)))
      in config\<lparr>Net := (Net config)\<lparr>UseIntraData :=
           (IPv4IntraData (Net config) \<noteq> '''' \<and> PortIntraData (L4 (Net config)) \<noteq> 0
              \<and> (differentIPs \<or> differentPorts))\<rparr>\<rparr>)"

text \<open>The command-line overrides at the end of \<^verbatim>\<open>LoadConfig\<close>.\<close>

definition cli_override :: "load_env \<Rightarrow> ConfigCLI \<Rightarrow> Config \<Rightarrow> exit + (Config \<times> bool)" where
  "cli_override e clivars config0 =
     (let (config1, changed1) =
            (if cli_StatsTime clivars \<noteq> 0
             then (config0\<lparr>Periodic := (Periodic config0)\<lparr>StatsTime := cli_StatsTime clivars\<rparr>\<rparr>, True)
             else (config0, False));
          (config2, changed2) =
            (if ProxyURL clivars \<noteq> ''''
             then (config1\<lparr>Proxy := (Proxy config1)\<lparr>PrimaryURL := ProxyURL clivars\<rparr>\<rparr>, True)
             else (config1, changed1))
      in if LogLevel clivars \<noteq> ''''
         then (case SetLogLevel e config2 (LogLevel clivars) of
                 None \<Rightarrow> Inl Exit1
               | Some config3 \<Rightarrow>
                   Inr (config3\<lparr>Log := (Log config3)\<lparr>Level := LogLevel clivars\<rparr>\<rparr>, True))
         else (case SetLogLevel e config2 (Level (Log config2)) of
                 None \<Rightarrow> Inl Exit1
               | Some config3 \<Rightarrow> Inr (config3, changed2)))"

definition LoadConfig :: "load_env \<Rightarrow> ConfigCLI \<Rightarrow> exit + loaded" where
  "LoadConfig e clivars =
     (case LocalLoad e (ConfFile clivars) of
        None \<Rightarrow> Inl Exit1
      | Some config0 \<Rightarrow>
          if \<not> flag_set_log_dir e (Dir (Log config0)) then Inl Exit1
          else if \<not> CreateDir e (Dir (Log config0)) then Inl Exit1
          else (case validateConfig e config0 of
                  None \<Rightarrow> Inl Exit1
                | Some config1 \<Rightarrow>
                    (case cli_override e clivars
                            (set_intra_data (set_intra_control (set_proto config1))) of
                       Inl x \<Rightarrow> Inl x
                     | Inr (config, changed) \<Rightarrow>
                         Inr \<lparr>ld_config = config, ld_changed = changed,
                              glog_MaxSize = glog_rotate e config1\<rparr>)))"

section \<open>Cluster map, REVS, messages\<close>

text \<open>
  A \<^verbatim>\<open>cluster.NodeMap\<close> maps a daemon ID to the node's descriptor, every node under its own
  ID; the metasyncer reads nothing of a descriptor but this ID, so a node map is the list of
  its keys.  Go iterates a map in no fixed order; the list fixes one.
\<close>

type_synonym daemonID = string
type_synonym NodeMap = "daemonID list"

record smapX =
  Version :: int
  ProxySI :: "daemonID option"
  Tmap :: NodeMap
  Pmap :: NodeMap

text \<open>
  Modelled from the spec: the method \<^verbatim>\<open>isPrimary\<close> of the cluster map is not among the
  sources.  The cluster map records the identifier of the primary gateway: a node is primary
  when it is the recorded primary.
\<close>

definition isPrimary :: "smapX \<Rightarrow> daemonID \<Rightarrow> bool" where
  "isPrimary smap self = (ProxySI smap = Some self)"

text \<open>
  Modelled from the spec: the method \<^verbatim>\<open>containsID\<close> of the cluster map is not among the
  sources.  The cluster map holds the gateways and the targets by node ID: an ID is contained
  when it is a target or a gateway.
\<close>

definition containsID :: "smapX \<Rightarrow> daemonID \<Rightarrow> bool" where
  "containsID smap sid = (sid \<in> set (Tmap smap) \<or> sid \<in> set (Pmap smap))"

text \<open>
  The \<^verbatim>\<open>revs\<close> interface: a tag, a version (\<^verbatim>\<open>int64\<close>, only ever compared) and the result
  of \<^verbatim>\<open>marshal()\<close>, \<open>None\<close> being its error return.
\<close>

record revs =
  revs_tag :: string
  revs_version :: int
  revs_marshal :: "string option"

definition smaptag :: string where "smaptag = ''smaptag''"
definition bucketmdtag :: string where "bucketmdtag = ''bucketmdtag''"
definition tokentag :: string where "tokentag = ''tokentag''"
definition actiontag :: string where "actiontag = ''-action''"

record actionMsgInternal =
  Action :: string
  Value :: string
  BMDVersion :: int
  SmapVersion :: int
  NewDaemonID :: string

text \<open>The action message of a pair is a pointer: \<open>None\<close> is \<^verbatim>\<open>nil\<close>.\<close>

record revspair =
  pair_revs :: revs
  pair_msgInt :: "actionMsgInternal option"

text \<open>
  A work request.  \<open>req_wg\<close> tells whether the caller waits (a wait group was attached) and
  \<open>req_failedCnt\<close> whether it passed a cell for the failure count.
\<close>

record revsReq =
  req_pairs :: "revspair list"
  req_wg :: bool
  req_msgInt :: "actionMsgInternal option"
  req_failedCnt :: bool

section \<open>Requests on the wire, and what the metasyncer does to the world\<close>

text \<open>
  JSON encoding is kept symbolic: the body of a request is the value that is marshalled,
  either an action message (a notify) or the payload, a map from keys to strings, each of
  them the serialization of a REVS or of an action message.
\<close>

datatype http_method = MethodPut | MethodPost

datatype network_plane = NetworkIntraControl

datatype payload_val = RevsJSON string | ActionJSON actionMsgInternal

datatype wire_body =
    MsgBody "actionMsgInternal option"
  | PayloadBody "(string \<times> payload_val) list"

record reqArgs =
  httpMethod :: http_method
  path :: string
  body :: wire_body

record bcastCallArgs =
  req :: reqArgs
  network :: network_plane
  timeout :: duration
  nodes :: "NodeMap list"

text \<open>
  Modelled from the spec: \<^verbatim>\<open>cmn.IsErrConnectionRefused\<close> is not among the sources.  The
  peer caller classifies an outcome as success, connection refused, or another error
  (a timeout, another transport error, an HTTP status of 400 or more).
\<close>

datatype call_err = ErrConnectionRefused | ErrOther

definition IsErrConnectionRefused :: "call_err option \<Rightarrow> bool" where
  "IsErrConnectionRefused x = (x = Some ErrConnectionRefused)"

record callResult =
  si :: daemonID
  err :: "call_err option"

text \<open>
  The effects of the metasyncer, in the order they happen: a broadcast, a sleep, a write
  \<^verbatim>\<open>rvd.vermap[tag] = version\<close> of \<^verbatim>\<open>syncDone\<close>, the error logged by \<^verbatim>\<open>checkPrimary\<close>, and
  the completion of a waiting caller's request.  Of the log lines only that of
  \<^verbatim>\<open>checkPrimary\<close> is recorded.
\<close>

datatype event =
    Bcast bcastCallArgs
  | Sleep duration
  | Delivered daemonID string int
  | LogNotPrimary
  | StoreFailedCnt "32 word"
  | WgDone

datatype fatal =
    AssertFailed
  | CoWViolation string int
  | SmapNewer int int
  | MarshalError
  | NilPointer

text \<open>
  The state of the metasyncer.  \<open>last_synced\<close> is the field \<^verbatim>\<open>last\<close>; it holds the REVS
  objects themselves, so code that changes a published object in place changes this entry
  and leaves \<open>lastclone\<close> alone.  \<open>retryTimer\<close> is \<open>Some d\<close> while the timer is armed to fire
  after \<open>d\<close>.  \<open>workCh\<close> is the work channel, oldest request first; its capacity of eight and
  the blocking of a sender on a full channel are not modelled.  \<open>trace\<close> records the effects
  so far.
\<close>

record metasyncer =
  revsmap :: "(daemonID \<times> (string \<rightharpoonup> int)) list"
  last_synced :: "(string \<times> revs) list"
  lastclone :: "string \<rightharpoonup> string"
  workCh :: "revsReq list"
  retryTimer :: "duration option"
  timerStopped :: bool
  trace :: "event list"

text \<open>
  What one operation of the metasyncer reads from outside: the node's own ID, the
  configuration, the constants \<^verbatim>\<open>cmn.ActRegTarget\<close> and
  \<^verbatim>\<open>cmn.URLPath(cmn.Version, cmn.Metasync)\<close> (not among the sources), the version of the
  bucket metadata, the cluster map that each \<^verbatim>\<open>smapowner.get()\<close> returns (the first of the
  operation, the one of retry round \<open>i\<close>, the one before housekeeping), and what each peer
  answers to the first broadcast and to the broadcast of retry round \<open>i\<close>.  The cluster map
  owner never returns \<^verbatim>\<open>nil\<close>.
\<close>

record env =
  p_si :: daemonID
  config :: Config
  ActRegTarget :: string
  metasync_path :: string
  bmd_version :: int
  smap0 :: smapX
  reply0 :: "daemonID \<Rightarrow> call_err option"
  smap_retry :: "nat \<Rightarrow> smapX"
  reply_retry :: "nat \<Rightarrow> daemonID \<Rightarrow> call_err option"
  smap_end :: smapX

section \<open>The metasyncer (metasync.go)\<close>

text \<open>
  Every operation takes the state and returns the new one, next to its result; a failed
  assertion or a panic is \<open>Inl\<close>, and the state next to it is the state at the abort.
\<close>

definition isNil :: "revsReq \<Rightarrow> bool" where
  "isNil r = (length (req_pairs r) = 0 \<and> req_msgInt r = None)"

definition newmetasyncer :: metasyncer where
  "newmetasyncer =
     \<lparr>revsmap = [], last_synced = [], lastclone = Map.empty, workCh = [],
      retryTimer = None, timerStopped = True, trace = []\<rparr>"

subsection \<open>The broadcaster (httprunner)\<close>

text \<open>
  One call for every node of the node maps but the node itself; the results come in the
  order of the calls here (in Go, in the order the calls complete).
\<close>

definition broadcast ::
  "env \<Rightarrow> (daemonID \<Rightarrow> call_err option) \<Rightarrow> bcastCallArgs \<Rightarrow> metasyncer
     \<Rightarrow> callResult list \<times> metasyncer" where
  "broadcast e reply bcastArgs y =
     (map (\<lambda>sid. \<lparr>si = sid, err = reply sid\<rparr>)
          (filter (\<lambda>sid. sid \<noteq> p_si e) (concat (nodes bcastArgs))),
      y\<lparr>trace := trace y @ [Bcast bcastArgs]\<rparr>)"

datatype bcast_to = Targets | Proxies | AllNodes

definition broadcastTo ::
  "env \<Rightarrow> (daemonID \<Rightarrow> call_err option) \<Rightarrow> string \<Rightarrow> http_method \<Rightarrow> wire_body \<Rightarrow> smapX
     \<Rightarrow> duration \<Rightarrow> network_plane \<Rightarrow> bcast_to \<Rightarrow> metasyncer \<Rightarrow> callResult list \<times> metasyncer" where
  "broadcastTo e reply urlPath m b smap tmo net to y =
     broadcast e reply
       \<lparr>req = \<lparr>httpMethod = m, path = urlPath, body = b\<rparr>, network = net, timeout = tmo,
        nodes = (case to of Targets \<Rightarrow> [Tmap smap] | Proxies \<Rightarrow> [Pmap smap]
                 | AllNodes \<Rightarrow> [Pmap smap, Tmap smap])\<rparr> y"

definition newActionMsgInternalStr :: "env \<Rightarrow> string \<Rightarrow> smapX \<Rightarrow> actionMsgInternal" where
  "newActionMsgInternalStr e msgStr smap =
     \<lparr>Action = '''', Value = msgStr, BMDVersion = bmd_version e, SmapVersion = Version smap,
      NewDaemonID = ''''\<rparr>"

subsection \<open>The internal API: notify, sync, becomeNonPrimary\<close>

definition checkPrimary :: "env \<Rightarrow> metasyncer \<Rightarrow> bool \<times> metasyncer" where
  "checkPrimary e y =
     (if isPrimary (smap0 e) (p_si e) then (True, y)
      else (False, y\<lparr>trace := trace y @ [LogNotPrimary]\<rparr>))"

definition notify ::
  "env \<Rightarrow> bool \<Rightarrow> bool \<Rightarrow> actionMsgInternal option \<Rightarrow> metasyncer \<Rightarrow> metasyncer" where
  "notify e wait failedCnt msg y =
     (case checkPrimary e y of
        (False, y1) \<Rightarrow> y1
      | (True, y1) \<Rightarrow>
          y1\<lparr>workCh := workCh y1 @
                [\<lparr>req_pairs = [], req_wg = wait, req_msgInt = msg, req_failedCnt = failedCnt\<rparr>]\<rparr>)"

definition sync :: "env \<Rightarrow> bool \<Rightarrow> revspair list \<Rightarrow> metasyncer \<Rightarrow> (fatal + unit) \<times> metasyncer" where
  "sync e wait pairs y =
     (case checkPrimary e y of
        (False, y1) \<Rightarrow> (Inr (), y1)
      | (True, y1) \<Rightarrow>
          if \<not> length pairs > 0 then (Inl AssertFailed, y1)
          else (Inr (), y1\<lparr>workCh := workCh y1 @
                  [\<lparr>req_pairs = pairs, req_wg = wait, req_msgInt = None,
                    req_failedCnt = False\<rparr>]\<rparr>))"

definition becomeNonPrimary :: "metasyncer \<Rightarrow> metasyncer" where
  "becomeNonPrimary y =
     y\<lparr>workCh := workCh y @
          [\<lparr>req_pairs = [], req_wg = False, req_msgInt = None, req_failedCnt = False\<rparr>]\<rparr>"

subsection \<open>Helpers of doSync\<close>

definition lversion :: "metasyncer \<Rightarrow> string \<Rightarrow> int" where
  "lversion y tag = (case map_of (last_synced y) tag of Some r \<Rightarrow> revs_version r | None \<Rightarrow> 0)"

definition countNewMembers :: "metasyncer \<Rightarrow> smapX \<Rightarrow> nat" where
  "countNewMembers y smap =
     length (filter (\<lambda>sid. map_of (revsmap y) sid = None) (Tmap smap @ Pmap smap))"

definition syncDone :: "daemonID \<Rightarrow> revspair list \<Rightarrow> metasyncer \<Rightarrow> metasyncer" where
  "syncDone sid pairs y =
     (let rvd = (case map_of (revsmap y) sid of Some vermap \<Rightarrow> vermap | None \<Rightarrow> Map.empty)
      in y\<lparr>revsmap :=
             AList.update sid
               (fold (\<lambda>p vermap. vermap(revs_tag (pair_revs p) \<mapsto> revs_version (pair_revs p)))
                     pairs rvd)
               (revsmap y),
           trace := trace y @
             map (\<lambda>p. Delivered sid (revs_tag (pair_revs p)) (revs_version (pair_revs p))) pairs\<rparr>)"

text \<open>Step 1 of doSync, first loop: the copy-on-write audit of everything published.\<close>

fun cow_audit :: "(string \<rightharpoonup> string) \<Rightarrow> (string \<times> revs) list \<Rightarrow> fatal option" where
  "cow_audit clone [] = None"
| "cow_audit clone ((tag, r) # rest) =
     (case revs_marshal r of
        None \<Rightarrow> Some MarshalError
      | Some jsbytes \<Rightarrow>
          (case clone tag of
             Some cowcopy \<Rightarrow>
               if cowcopy \<noteq> jsbytes then Some (CoWViolation tag (revs_version r))
               else cow_audit clone rest
           | None \<Rightarrow> cow_audit clone rest))"

text \<open>
  Step 1 of doSync, the loop labelled \<^verbatim>\<open>outer\<close>: the pairs that go on the wire.  A pair
  tagged as the cluster map and newer than the current one fails an assertion; an older one
  is only warned about.
\<close>

fun filter_pairs :: "smapX \<Rightarrow> metasyncer \<Rightarrow> nat \<Rightarrow> revspair list \<Rightarrow> fatal + revspair list" where
  "filter_pairs smap y newCnt [] = Inr []"
| "filter_pairs smap y newCnt (pair # rest) =
     (case pair_msgInt pair of
        None \<Rightarrow> Inl NilPointer
      | Some msgInt \<Rightarrow>
          if revs_tag (pair_revs pair) = smaptag \<and> revs_version (pair_revs pair) > Version smap
          then Inl (SmapNewer (revs_version (pair_revs pair)) (Version smap))
          else
            (case filter_pairs smap y newCnt rest of
               Inl f \<Rightarrow> Inl f
             | Inr pairsToSend \<Rightarrow>
                 if lversion y (revs_tag (pair_revs pair)) = revs_version (pair_revs pair)
                 then (if newCnt = 0 then Inr pairsToSend else Inr (pair # pairsToSend))
                 else if lversion y (revs_tag (pair_revs pair)) > revs_version (pair_revs pair)
                 then Inr pairsToSend
                 else Inr (pair # pairsToSend)))"

text \<open>Step 2: publish each pair to send and put it in the payload.\<close>

fun build_payload ::
  "env \<Rightarrow> revspair list \<Rightarrow> (string \<times> payload_val) list \<Rightarrow> string \<Rightarrow> metasyncer
     \<Rightarrow> (fatal + ((string \<times> payload_val) list \<times> string)) \<times> metasyncer" where
  "build_payload e [] payload newTargetID y = (Inr (payload, newTargetID), y)"
| "build_payload e (pair # rest) payload newTargetID y =
     (case pair_msgInt pair of
        None \<Rightarrow> (Inl NilPointer, y)
      | Some msgInt \<Rightarrow>
          (let tag = revs_tag (pair_revs pair);
               y1 = y\<lparr>last_synced := AList.update tag (pair_revs pair) (last_synced y)\<rparr>
           in case revs_marshal (pair_revs pair) of
                None \<Rightarrow> (Inl MarshalError, y1)
              | Some jsbytes \<Rightarrow>
                  build_payload e rest
                    (AList.update (tag @ actiontag) (ActionJSON msgInt)
                       (AList.update tag (RevsJSON jsbytes) payload))
                    (if Action msgInt = ActRegTarget e then NewDaemonID msgInt else newTargetID)
                    (y1\<lparr>lastclone := (lastclone y1)(tag \<mapsto> jsbytes)\<rparr>)))"

text \<open>Step 4: count the failures and collect the refused.\<close>

fun count_failures ::
  "revspair list \<Rightarrow> string \<Rightarrow> callResult list \<Rightarrow> NodeMap \<Rightarrow> nat \<Rightarrow> metasyncer
     \<Rightarrow> (NodeMap \<times> nat) \<times> metasyncer" where
  "count_failures pairsToSend newTargetID [] refused cnt y = ((refused, cnt), y)"
| "count_failures pairsToSend newTargetID (r # res) refused cnt y =
     (if err r = None then
        count_failures pairsToSend newTargetID res refused cnt
          (if length pairsToSend > 0 then syncDone (si r) pairsToSend y else y)
      else if IsErrConnectionRefused (err r) \<or> si r = newTargetID then
        count_failures pairsToSend newTargetID res (List.insert (si r) refused) cnt y
      else count_failures pairsToSend newTargetID res refused (cnt + 1) y)"

fun refused_results ::
  "revspair list \<Rightarrow> callResult list \<Rightarrow> NodeMap \<Rightarrow> metasyncer \<Rightarrow> NodeMap \<times> metasyncer" where
  "refused_results pairs [] refused y = (refused, y)"
| "refused_results pairs (r # res) refused y =
     (if err r = None then
        refused_results pairs res (removeAll (si r) refused) (syncDone (si r) pairs y)
      else refused_results pairs res refused y)"

text \<open>\<open>i\<close> is the retry round, which selects the peers' answers.\<close>

definition handleRefused ::
  "env \<Rightarrow> nat \<Rightarrow> http_method \<Rightarrow> string \<Rightarrow> wire_body \<Rightarrow> NodeMap \<Rightarrow> revspair list \<Rightarrow> metasyncer
     \<Rightarrow> NodeMap \<times> metasyncer" where
  "handleRefused e i m urlPath b refused pairs y =
     (case broadcast e (reply_retry e i)
             \<lparr>req = \<lparr>httpMethod = m, path = urlPath, body = b\<rparr>,
              network = NetworkIntraControl,
              timeout = MaxKeepalive (Timeout (config e)),
              nodes = [refused]\<rparr> y of
        (res, y1) \<Rightarrow> refused_results pairs res refused y1)"

text \<open>
  Step 5: the loop over \<open>i\<close>.  \<open>None\<close> is the return after \<^verbatim>\<open>becomeNonPrimary\<close>, \<open>Some\<close>
  carries the peers still refused when the loop ends.
\<close>

function retry_refused ::
  "env \<Rightarrow> nat \<Rightarrow> http_method \<Rightarrow> string \<Rightarrow> wire_body \<Rightarrow> revspair list \<Rightarrow> NodeMap \<Rightarrow> metasyncer
     \<Rightarrow> NodeMap option \<times> metasyncer" where
  "retry_refused e i m urlPath b pairsToSend refused y =
     (if \<not> i < 10 \<or> length refused = 0 then (Some refused, y)
      else if \<not> isPrimary (smap_retry e i) (p_si e)
      then (None, becomeNonPrimary
                    (y\<lparr>trace := trace y @ [Sleep (CplaneOperation (Timeout (config e)))]\<rparr>))
      else retry_refused e (i + 1) m urlPath b pairsToSend
             (fst (handleRefused e i m urlPath b refused pairsToSend
                     (y\<lparr>trace := trace y @ [Sleep (CplaneOperation (Timeout (config e)))]\<rparr>)))
             (snd (handleRefused e i m urlPath b refused pairsToSend
                     (y\<lparr>trace := trace y @ [Sleep (CplaneOperation (Timeout (config e)))]\<rparr>))))"
  by pat_completeness auto
termination
  by (relation "measure (\<lambda>(e, i, m, urlPath, b, pairsToSend, refused, y). 10 - i)") auto

text \<open>Step 6: forget the nodes that left the cluster map.\<close>

definition housekeep :: "smapX \<Rightarrow> metasyncer \<Rightarrow> metasyncer" where
  "housekeep smap y =
     y\<lparr>revsmap := filter (\<lambda>(sid, rvd). containsID smap sid) (revsmap y)\<rparr>"

text \<open>Steps 3 to 6, from the label \<^verbatim>\<open>bcast\<close> on.\<close>

definition bcast_steps ::
  "env \<Rightarrow> smapX \<Rightarrow> http_method \<Rightarrow> wire_body \<Rightarrow> revspair list \<Rightarrow> string \<Rightarrow> metasyncer
     \<Rightarrow> (fatal + nat) \<times> metasyncer" where
  "bcast_steps e smap m jsbytes pairsToSend newTargetID y =
     (case broadcastTo e (reply0 e) (metasync_path e) m jsbytes smap
             (CplaneOperation (Timeout (config e)) * 2) NetworkIntraControl AllNodes y of
        (res, y1) \<Rightarrow>
          (case count_failures pairsToSend newTargetID res [] 0 y1 of
             ((refused, cnt), y2) \<Rightarrow>
               (case retry_refused e 0 m (metasync_path e) jsbytes pairsToSend refused y2 of
                  (None, y3) \<Rightarrow> (Inr cnt, y3)
                | (Some refused', y3) \<Rightarrow>
                    (Inr (cnt + length refused'), housekeep (smap_end e) y3))))"

subsection \<open>doSync\<close>

definition doSync ::
  "env \<Rightarrow> revspair list \<Rightarrow> actionMsgInternal option \<Rightarrow> metasyncer
     \<Rightarrow> (fatal + nat) \<times> metasyncer" where
  "doSync e pairs msgInt y =
     (let smap = smap0 e;
          newCnt = countNewMembers y smap
      in case cow_audit (lastclone y) (last_synced y) of
           Some f \<Rightarrow> (Inl f, y)
         | None \<Rightarrow>
             if length pairs = 0
             then bcast_steps e smap MethodPost (MsgBody msgInt) [] '''' y
             else if msgInt \<noteq> None then (Inl AssertFailed, y)
             else
               (case filter_pairs smap y newCnt pairs of
                  Inl f \<Rightarrow> (Inl f, y)
                | Inr pairsToSend \<Rightarrow>
                    if length pairsToSend = 0 then (Inr 0, y)
                    else
                      (case build_payload e pairsToSend [] '''' y of
                         (Inl f, y1) \<Rightarrow> (Inl f, y1)
                       | (Inr (payload, newTargetID), y1) \<Rightarrow>
                           bcast_steps e smap MethodPut (PayloadBody payload)
                             pairsToSend newTargetID y1)))"

subsection \<open>pending and handlePending\<close>

text \<open>
  The inner loop of \<^verbatim>\<open>pending\<close> over the published tags: whether the peer has them all at
  the published version.  The loop ends at the first tag that the peer lacks or has at
  another version, and there a recorded version above the published one fails the
  assertion.  Go visits the tags of the map \<^verbatim>\<open>y.last\<close> in an order it does not specify; the
  list fixes one.  The order decides nothing but which of several differing tags is met
  first, that is, whether a recorded version above the published one fails the assertion
  or another difference ends the loop before it.
\<close>

fun in_sync :: "(string \<rightharpoonup> int) \<Rightarrow> (string \<times> revs) list \<Rightarrow> fatal + bool" where
  "in_sync vermap [] = Inr True"
| "in_sync vermap ((tag, r) # rest) =
     (case vermap tag of
        None \<Rightarrow> Inr False
      | Some v \<Rightarrow>
          if v \<noteq> revs_version r
          then (if v < revs_version r then Inr False else Inl AssertFailed)
          else in_sync vermap rest)"

fun pending_nodes ::
  "bool \<Rightarrow> NodeMap \<Rightarrow> nat \<Rightarrow> NodeMap \<Rightarrow> metasyncer \<Rightarrow> (fatal + (nat \<times> NodeMap)) \<times> metasyncer" where
  "pending_nodes needMap [] count pend y = (Inr (count, pend), y)"
| "pending_nodes needMap (sid # rest) count pend y =
     (case map_of (revsmap y) sid of
        None \<Rightarrow>
          pending_nodes needMap rest (count + 1)
            (if needMap then List.insert sid pend else pend)
            (y\<lparr>revsmap := AList.update sid Map.empty (revsmap y)\<rparr>)
      | Some vermap \<Rightarrow>
          (case in_sync vermap (last_synced y) of
             Inl f \<Rightarrow> (Inl f, y)
           | Inr inSync \<Rightarrow>
               pending_nodes needMap rest (if inSync then count else count + 1)
                 (if \<not> needMap \<or> inSync then pend else List.insert sid pend) y))"

definition pending ::
  "env \<Rightarrow> bool \<Rightarrow> metasyncer \<Rightarrow> (fatal + (nat \<times> NodeMap \<times> smapX)) \<times> metasyncer" where
  "pending e needMap y =
     (if \<not> isPrimary (smap0 e) (p_si e) then (Inr (0, [], smap0 e), becomeNonPrimary y)
      else
        (case pending_nodes needMap (Tmap (smap0 e) @ Pmap (smap0 e)) 0 [] y of
           (Inl f, y1) \<Rightarrow> (Inl f, y1)
         | (Inr (count, pend), y1) \<Rightarrow> (Inr (count, pend, smap0 e), y1)))"

fun pending_payload ::
  "actionMsgInternal \<Rightarrow> (string \<times> revs) list \<Rightarrow> (string \<times> payload_val) list \<Rightarrow> revspair list
     \<Rightarrow> fatal + ((string \<times> payload_val) list \<times> revspair list)" where
  "pending_payload msgInt [] payload pairs = Inr (payload, pairs)"
| "pending_payload msgInt ((tag, r) # rest) payload pairs =
     (case revs_marshal r of
        None \<Rightarrow> Inl MarshalError
      | Some b \<Rightarrow>
          pending_payload msgInt rest
            (AList.update (tag @ actiontag) (ActionJSON msgInt)
               (AList.update tag (RevsJSON b) payload))
            (pairs @ [\<lparr>pair_revs = r, pair_msgInt = Some msgInt\<rparr>]))"

fun pending_results ::
  "revspair list \<Rightarrow> callResult list \<Rightarrow> nat \<Rightarrow> metasyncer \<Rightarrow> nat \<times> metasyncer" where
  "pending_results pairs [] cnt y = (cnt, y)"
| "pending_results pairs (r # res) cnt y =
     (if err r = None then pending_results pairs res cnt (syncDone (si r) pairs y)
      else pending_results pairs res (cnt + 1) y)"

definition handlePending :: "env \<Rightarrow> metasyncer \<Rightarrow> (fatal + nat) \<times> metasyncer" where
  "handlePending e y =
     (case pending e True y of
        (Inl f, y1) \<Rightarrow> (Inl f, y1)
      | (Inr (count, pend, smap), y1) \<Rightarrow>
          if count = 0 then (Inr 0, y1)
          else
            (case pending_payload
                    (newActionMsgInternalStr e ''metasync: handle-pending'' smap)
                    (last_synced y1) [] [] of
               Inl f \<Rightarrow> (Inl f, y1)
             | Inr (payload, pairs) \<Rightarrow>
                 (case broadcast e (reply0 e)
                         \<lparr>req = \<lparr>httpMethod = MethodPut, path = metasync_path e,
                                 body = PayloadBody payload\<rparr>,
                          network = NetworkIntraControl,
                          timeout = CplaneOperation (Timeout (config e)),
                          nodes = [pend]\<rparr> y1 of
                    (res, y2) \<Rightarrow>
                      (case pending_results pairs res 0 y2 of
                         (cnt, y3) \<Rightarrow> (Inr cnt, y3)))))"

subsection \<open>The loop of Run, one turn at a time\<close>

text \<open>
  A turn of the \<^verbatim>\<open>select\<close> either takes the oldest work request, or sees the retry timer
  fire, or stops.  \<open>Run_work\<close> is the first (nothing happens on an empty channel),
  \<open>Run_timer\<close> the second (nothing happens unless the timer is armed).
\<close>

definition Run_work :: "env \<Rightarrow> metasyncer \<Rightarrow> (fatal + unit) \<times> metasyncer" where
  "Run_work e y =
     (case workCh y of
        [] \<Rightarrow> (Inr (), y)
      | revsReq # ch \<Rightarrow>
          if isNil revsReq
          then (Inr (), y\<lparr>workCh := ch, revsmap := [], last_synced := [],
                            lastclone := Map.empty, retryTimer := None, timerStopped := True\<rparr>)
          else
            (case doSync e (req_pairs revsReq) (req_msgInt revsReq) (y\<lparr>workCh := ch\<rparr>) of
               (Inl f, y1) \<Rightarrow> (Inl f, y1)
             | (Inr cnt, y1) \<Rightarrow>
                 (let y2 = (if req_wg revsReq
                            then y1\<lparr>trace := trace y1 @
                                   (if req_failedCnt revsReq then [StoreFailedCnt (of_nat cnt)]
                                    else []) @ [WgDone]\<rparr>
                            else y1)
                  in if cnt > 0 \<and> timerStopped y2 \<and> length (req_pairs revsReq) > 0
                     then (Inr (), y2\<lparr>retryTimer := Some (RetrySyncTime (Periodic (config e))),
                                        timerStopped := False\<rparr>)
                     else (Inr (), y2))))"

definition Run_timer :: "env \<Rightarrow> metasyncer \<Rightarrow> (fatal + unit) \<times> metasyncer" where
  "Run_timer e y =
     (case retryTimer y of
        None \<Rightarrow> (Inr (), y)
      | Some d \<Rightarrow>
          (case handlePending e (y\<lparr>retryTimer := None\<rparr>) of
             (Inl f, y1) \<Rightarrow> (Inl f, y1)
           | (Inr cnt, y1) \<Rightarrow>
               if cnt > 0
               then (Inr (), y1\<lparr>retryTimer := Some (RetrySyncTime (Periodic (config e))),
                                  timerStopped := False\<rparr>)
               else (Inr (), y1\<lparr>timerStopped := True\<rparr>)))"

definition Run_stop :: "metasyncer \<Rightarrow> metasyncer" where
  "Run_stop y = y\<lparr>retryTimer := None\<rparr>"

section \<open>Concrete inputs\<close>

text \<open>
  A configuration file with a public and an intra-control network, as \<^verbatim>\<open>LocalLoad\<close> reads it,
  and the configuration that \<^verbatim>\<open>LoadConfig\<close> commits for it.
\<close>

definition ex_conf_file :: Config where
  "ex_conf_file =
     \<lparr>Log = \<lparr>Dir = ''/tmp/ais/log'', Level = ''3'', MaxSize = 4194304\<rparr>,
      Periodic = \<lparr>StatsTime = 10000000000, RetrySyncTime = 2000000000\<rparr>,
      Timeout = \<lparr>MaxKeepalive = 4000000000, CplaneOperation = 1000000000\<rparr>,
      Proxy = \<lparr>PrimaryURL = ''http://10.0.0.1:8080''\<rparr>,
      Net = \<lparr>IPv4 = ''10.0.0.1'', IPv4IntraControl = ''10.1.0.1'', IPv4IntraData = '''',
             UseIntraControl = False, UseIntraData = False,
             L4 = \<lparr>PortStr = ''8080'', Port = 0, PortIntraControlStr = ''9080'',
                    PortIntraControl = 0, PortIntraDataStr = '''', PortIntraData = 0\<rparr>,
             HTTP = \<lparr>Proto = '''', RevProxy = '''', UseHTTPS = False\<rparr>\<rparr>\<rparr>"

definition ex_config :: Config where
  "ex_config =
     \<lparr>Log = \<lparr>Dir = ''/tmp/ais/log'', Level = ''3'', MaxSize = 4194304\<rparr>,
      Periodic = \<lparr>StatsTime = 10000000000, RetrySyncTime = 2000000000\<rparr>,
      Timeout = \<lparr>MaxKeepalive = 4000000000, CplaneOperation = 1000000000\<rparr>,
      Proxy = \<lparr>PrimaryURL = ''http://10.0.0.1:8080''\<rparr>,
      Net = \<lparr>IPv4 = ''10.0.0.1'', IPv4IntraControl = ''10.1.0.1'', IPv4IntraData = '''',
             UseIntraControl = True, UseIntraData = False,
             L4 = \<lparr>PortStr = ''8080'', Port = 8080, PortIntraControlStr = ''9080'',
                    PortIntraControl = 9080, PortIntraDataStr = '''', PortIntraData = 0\<rparr>,
             HTTP = \<lparr>Proto = ''http'', RevProxy = '''', UseHTTPS = False\<rparr>\<rparr>\<rparr>"

definition ex_load_env :: load_env where
  "ex_load_env =
     \<lparr>LocalLoad = (\<lambda>f. if f = ''ais.json'' then Some ex_conf_file else None),
      flag_set_log_dir = (\<lambda>d. True), CreateDir = (\<lambda>d. True), validate_head = Some,
      ParsePort = (\<lambda>s. if s = ''8080'' then Some 8080 else if s = ''9080'' then Some 9080
                         else None),
      flag_set_v = (\<lambda>l. True), GiB = 1073741824, MiB = 1048576\<rparr>"

definition ex_cli :: ConfigCLI where
  "ex_cli = \<lparr>ConfFile = ''ais.json'', LogLevel = '''', cli_StatsTime = 0, ProxyURL = ''''\<rparr>"

definition ex_loaded :: loaded where
  "ex_loaded = \<lparr>ld_config = ex_config, ld_changed = False, glog_MaxSize = 4194304\<rparr>"

definition ex_smap :: smapX where
  "ex_smap = \<lparr>Version = 2, ProxySI = Some ''P0'', Tmap = [''T1''], Pmap = [''P0'']\<rparr>"

text \<open>The node \<open>P0\<close> is the primary of a cluster with one target, and every call succeeds.\<close>

definition ex_env :: env where
  "ex_env =
     \<lparr>p_si = ''P0'', config = ex_config, ActRegTarget = ''register-target'',
      metasync_path = ''/v1/metasync'', bmd_version = 1, smap0 = ex_smap,
      reply0 = (\<lambda>sid. None), smap_retry = (\<lambda>i. ex_smap), reply_retry = (\<lambda>i sid. None),
      smap_end = ex_smap\<rparr>"

definition ex_msg :: actionMsgInternal where
  "ex_msg = \<lparr>Action = ''update'', Value = '''', BMDVersion = 1, SmapVersion = 2,
             NewDaemonID = ''''\<rparr>"

definition ex_bmd :: revs where
  "ex_bmd = \<lparr>revs_tag = bucketmdtag, revs_version = 1, revs_marshal = Some ''bmd-v1''\<rparr>"

definition ex_pair :: revspair where
  "ex_pair = \<lparr>pair_revs = ex_bmd, pair_msgInt = Some ex_msg\<rparr>"

text \<open>
  The bucket metadata has been published at version 1, and the published object was then
  changed in place.
\<close>

definition ex_mutated :: metasyncer where
  "ex_mutated =
     newmetasyncer\<lparr>last_synced := [(bucketmdtag, ex_bmd\<lparr>revs_marshal := Some ''bmd-v1-changed''\<rparr>)],
                   lastclone := [bucketmdtag \<mapsto> ''bmd-v1'']\<rparr>"

text \<open>The broadcast of \<open>ex_pair\<close> in the cluster of \<open>ex_env\<close>, and the state after it.\<close>

definition ex_bcast :: bcastCallArgs where
  "ex_bcast =
     \<lparr>req = \<lparr>httpMethod = MethodPut, path = ''/v1/metasync'',
              body = PayloadBody [(bucketmdtag, RevsJSON ''bmd-v1''),
                                  (bucketmdtag @ actiontag, ActionJSON ex_msg)]\<rparr>,
      network = NetworkIntraControl, timeout = 2000000000, nodes = [[''P0''], [''T1'']]\<rparr>"

definition ex_synced :: metasyncer where
  "ex_synced =
     newmetasyncer\<lparr>revsmap := [(''T1'', [bucketmdtag \<mapsto> 1])],
                   last_synced := [(bucketmdtag, ex_bmd)],
                   lastclone := [bucketmdtag \<mapsto> ''bmd-v1''],
                   trace := [Bcast ex_bcast, Delivered ''T1'' bucketmdtag 1]\<rparr>"

text \<open>A cluster map of version 1, offered for synchronization when the current one is 2.\<close>

definition ex_stale_smap :: revs where
  "ex_stale_smap = \<lparr>revs_tag = smaptag, revs_version = 1, revs_marshal = Some ''smap-v1''\<rparr>"

definition ex_stale_pair :: revspair where
  "ex_stale_pair = \<lparr>pair_revs = ex_stale_smap, pair_msgInt = Some ex_msg\<rparr>"

text \<open>
  The target refuses the connection, and at the first retry round the cluster map names
  another gateway, \<open>P1\<close>, as primary.
\<close>

definition ex_smap_lost :: smapX where
  "ex_smap_lost = \<lparr>Version = 3, ProxySI = Some ''P1'', Tmap = [''T1''], Pmap = [''P0'', ''P1'']\<rparr>"

definition ex_env_lost :: env where
  "ex_env_lost =
     ex_env\<lparr>reply0 := (\<lambda>sid. Some ErrConnectionRefused), smap_retry := (\<lambda>i. ex_smap_lost),
            smap_end := ex_smap_lost\<rparr>"

text \<open>Two pairs of one tag in one request, the older version last.\<close>

definition ex_bmd3 :: revs where
  "ex_bmd3 = \<lparr>revs_tag = bucketmdtag, revs_version = 3, revs_marshal = Some ''bmd-v3''\<rparr>"

definition ex_bmd2 :: revs where
  "ex_bmd2 = \<lparr>revs_tag = bucketmdtag, revs_version = 2, revs_marshal = Some ''bmd-v2''\<rparr>"

definition ex_pairs32 :: "revspair list" where
  "ex_pairs32 = [\<lparr>pair_revs = ex_bmd3, pair_msgInt = Some ex_msg\<rparr>,
                 \<lparr>pair_revs = ex_bmd2, pair_msgInt = Some ex_msg\<rparr>]"

text \<open>
  A second target, \<open>T2\<close>, has joined: the cluster map is now version 3, and it is
  synchronized with the action of the registration.
\<close>

definition ex_smap3 :: smapX where
  "ex_smap3 = \<lparr>Version = 3, ProxySI = Some ''P0'', Tmap = [''T1'', ''T2''], Pmap = [''P0'']\<rparr>"

definition ex_env3 :: env where
  "ex_env3 = ex_env\<lparr>smap0 := ex_smap3, smap_retry := (\<lambda>i. ex_smap3), smap_end := ex_smap3\<rparr>"

definition ex_smap3_revs :: revs where
  "ex_smap3_revs = \<lparr>revs_tag = smaptag, revs_version = 3, revs_marshal = Some ''smap-v3''\<rparr>"

definition ex_reg_msg :: actionMsgInternal where
  "ex_reg_msg = \<lparr>Action = ''register-target'', Value = '''', BMDVersion = 1, SmapVersion = 3,
                 NewDaemonID = ''T2''\<rparr>"

definition ex_reg_pair :: revspair where
  "ex_reg_pair = \<lparr>pair_revs = ex_smap3_revs, pair_msgInt = Some ex_reg_msg\<rparr>"

text \<open>
  The bucket metadata is synchronized in the cluster of \<open>ex_env\<close>; then \<open>T2\<close> joins and the
  new cluster map is synchronized.  Every call succeeds.
\<close>

definition ex_after_join :: metasyncer where
  "ex_after_join =
     snd (Run_work ex_env3 (snd (sync ex_env3 False [ex_reg_pair]
       (snd (Run_work ex_env (snd (sync ex_env False [ex_pair] newmetasyncer)))))))"

text \<open>
  The target refuses the connection at the first broadcast and accepts it at the first retry.
\<close>

definition ex_env_refused :: env where
  "ex_env_refused = ex_env\<lparr>reply0 := (\<lambda>sid. Some ErrConnectionRefused)\<rparr>"

definition ex_refused_y1 :: metasyncer where
  "ex_refused_y1 =
     newmetasyncer\<lparr>trace :=
       [Bcast \<lparr>req = \<lparr>httpMethod = MethodPut, path = ''/v1/metasync'', body = MsgBody None\<rparr>,
               network = NetworkIntraControl, timeout = 2000000000,
               nodes = [[''P0''], [''T1'']]\<rparr>]\<rparr>"

definition ex_refused_y3 :: metasyncer where
  "ex_refused_y3 =
     ex_refused_y1\<lparr>revsmap := [(''T1'', [bucketmdtag \<mapsto> 1])],
       trace := trace ex_refused_y1 @
         [Sleep 1000000000,
          Bcast \<lparr>req = \<lparr>httpMethod = MethodPut, path = ''/v1/metasync'', body = MsgBody None\<rparr>,
                  network = NetworkIntraControl, timeout = 4000000000, nodes = [[''T1'']]\<rparr>,
          Delivered ''T1'' bucketmdtag 1]\<rparr>"

text \<open>
  The only target refuses every call; the node is still primary in the first retry round and
  has lost primacy in the second.
\<close>

definition ex_env_bail :: env where
  "ex_env_bail =
     ex_env\<lparr>reply0 := (\<lambda>sid. Some ErrConnectionRefused),
            reply_retry := (\<lambda>i sid. Some ErrConnectionRefused),
            smap_retry := (\<lambda>i. if i = 0 then ex_smap else ex_smap_lost),
            smap_end := ex_smap_lost\<rparr>"

definition ex_bail_y3 :: metasyncer where
  "ex_bail_y3 =
     ex_refused_y1\<lparr>workCh := [\<lparr>req_pairs = [], req_wg = False, req_msgInt = None,
                               req_failedCnt = False\<rparr>],
       trace := trace ex_refused_y1 @
         [Sleep 1000000000,
          Bcast \<lparr>req = \<lparr>httpMethod = MethodPut, path = ''/v1/metasync'', body = MsgBody None\<rparr>,
                  network = NetworkIntraControl, timeout = 4000000000, nodes = [[''T1'']]\<rparr>,
          Sleep 1000000000]\<rparr>"

definition ex_refused_done :: metasyncer where
  "ex_refused_done = snd (doSync ex_env_refused [ex_pair] None newmetasyncer)"

text \<open>A cluster map of version 5, offered when the current one is 2.\<close>

definition ex_newer_pair :: revspair where
  "ex_newer_pair =
     \<lparr>pair_revs = \<lparr>revs_tag = smaptag, revs_version = 5, revs_marshal = Some ''smap-v5''\<rparr>,
      pair_msgInt = Some ex_msg\<rparr>"

definition ex_stale_done :: metasyncer where
  "ex_stale_done = snd (doSync ex_env [ex_stale_pair] None newmetasyncer)"

section \<open>Reading the trace and the delivery state\<close>

text \<open>The versions written for a peer and a tag, oldest first.\<close>

fun delivered_versions :: "daemonID \<Rightarrow> string \<Rightarrow> event list \<Rightarrow> int list" where
  "delivered_versions sid tag [] = []"
| "delivered_versions sid tag (Delivered s t v # evs) =
     (if s = sid \<and> t = tag then v # delivered_versions sid tag evs
      else delivered_versions sid tag evs)"
| "delivered_versions sid tag (ev # evs) = delivered_versions sid tag evs"

text \<open>\<^verbatim>\<open>revsmap[sid].vermap[tag]\<close>, \<open>None\<close> when the peer or the tag has no entry.\<close>

definition delivered :: "metasyncer \<Rightarrow> daemonID \<Rightarrow> string \<Rightarrow> int option" where
  "delivered y sid tag = (case map_of (revsmap y) sid of None \<Rightarrow> None | Some vermap \<Rightarrow> vermap tag)"

fun is_Bcast :: "event \<Rightarrow> bool" where
  "is_Bcast (Bcast a) = True"
| "is_Bcast ev = False"

fun is_Sleep :: "event \<Rightarrow> bool" where
  "is_Sleep (Sleep d) = True"
| "is_Sleep ev = False"

text \<open>The tag and the version of a pair.\<close>

abbreviation ptag :: "revspair \<Rightarrow> string" where
  "ptag p \<equiv> revs_tag (pair_revs p)"

abbreviation pver :: "revspair \<Rightarrow> int" where
  "pver p \<equiv> revs_version (pair_revs p)"

text \<open>\<open>y'\<close> differs from \<open>y\<close> in the delivery state and the trace at most.\<close>

definition frame :: "metasyncer \<Rightarrow> metasyncer \<Rightarrow> bool" where
  "frame y y' =
     (last_synced y' = last_synced y \<and> lastclone y' = lastclone y \<and> workCh y' = workCh y
      \<and> retryTimer y' = retryTimer y \<and> timerStopped y' = timerStopped y)"

text \<open>Every event is the delivery of one of the pairs to one of the peers.\<close>

definition deliveries :: "daemonID set \<Rightarrow> revspair list \<Rightarrow> event list \<Rightarrow> bool" where
  "deliveries S pairs evs =
     (\<forall>ev \<in> set evs. \<exists>s p. s \<in> S \<and> p \<in> set pairs \<and> ev = Delivered s (ptag p) (pver p))"

text \<open>What a retry round may do: sleep, broadcast to some of the refused, deliver to them.\<close>

definition retry_event ::
  "env \<Rightarrow> http_method \<Rightarrow> string \<Rightarrow> wire_body \<Rightarrow> NodeMap \<Rightarrow> revspair list \<Rightarrow> event \<Rightarrow> bool" where
  "retry_event e m urlPath b refused pairs ev =
     (ev = Sleep (CplaneOperation (Timeout (config e)))
      \<or> (\<exists>ns. set ns \<subseteq> set refused
            \<and> ev = Bcast \<lparr>req = \<lparr>httpMethod = m, path = urlPath, body = b\<rparr>,
                           network = NetworkIntraControl,
                           timeout = MaxKeepalive (Timeout (config e)), nodes = [ns]\<rparr>)
      \<or> (\<exists>s p. s \<in> set refused \<and> p \<in> set pairs \<and> ev = Delivered s (ptag p) (pver p)))"

text \<open>The peer has every pair at the pair's version.\<close>

definition has_all :: "metasyncer \<Rightarrow> daemonID \<Rightarrow> revspair list \<Rightarrow> bool" where
  "has_all y sid pairs = (\<forall>p \<in> set pairs. delivered y sid (ptag p) = Some (pver p))"

text \<open>The broadcast of a retry round.\<close>

definition retry_bcast ::
  "env \<Rightarrow> http_method \<Rightarrow> string \<Rightarrow> wire_body \<Rightarrow> NodeMap \<Rightarrow> bcastCallArgs" where
  "retry_bcast e m urlPath b refused =
     \<lparr>req = \<lparr>httpMethod = m, path = urlPath, body = b\<rparr>, network = NetworkIntraControl,
      timeout = MaxKeepalive (Timeout (config e)), nodes = [refused]\<rparr>"

text \<open>The first broadcast of \<^verbatim>\<open>doSync\<close>, to all nodes of the cluster map it read.\<close>

definition first_bcast :: "env \<Rightarrow> smapX \<Rightarrow> http_method \<Rightarrow> wire_body \<Rightarrow> bcastCallArgs" where
  "first_bcast e smap m b =
     \<lparr>req = \<lparr>httpMethod = m, path = metasync_path e, body = b\<rparr>, network = NetworkIntraControl,
      timeout = CplaneOperation (Timeout (config e)) * 2, nodes = [Pmap smap, Tmap smap]\<rparr>"

text \<open>Every delivery among the events is of one of the pairs, at the pair's version.\<close>

definition writes_from :: "revspair list \<Rightarrow> event list \<Rightarrow> bool" where
  "writes_from pairs evs =
     (\<forall>s t v. Delivered s t v \<in> set evs \<longrightarrow> (\<exists>p \<in> set pairs. t = ptag p \<and> v = pver p))"

section \<open>Sequences of operations\<close>

text \<open>
  The metasyncer's loop runs \<^verbatim>\<open>doSync\<close> and \<^verbatim>\<open>handlePending\<close> one after the other, each
  in the world it finds.  A sequence of operations ends early when one of them aborts.
\<close>

datatype op = OpSync env "revspair list" "actionMsgInternal option" | OpPending env

fun run_ops :: "metasyncer \<Rightarrow> op list \<Rightarrow> metasyncer" where
  "run_ops y [] = y"
| "run_ops y (OpSync e pairs msgInt # ops) =
     (case doSync e pairs msgInt y of
        (Inl f, y') \<Rightarrow> y'
      | (Inr n, y') \<Rightarrow> run_ops y' ops)"
| "run_ops y (OpPending e # ops) =
     (case handlePending e y of
        (Inl f, y') \<Rightarrow> y'
      | (Inr n, y') \<Rightarrow> run_ops y' ops)"

fun distinct_tags :: "op \<Rightarrow> bool" where
  "distinct_tags (OpSync e pairs msgInt) = distinct (map ptag pairs)"
| "distinct_tags (OpPending e) = True"

text \<open>
  What the operations keep true: every published entry sits under its own tag, once; and
  for every peer and tag the versions written so far never decrease and do not exceed the
  published version.
\<close>

definition published_ok :: "metasyncer \<Rightarrow> bool" where
  "published_ok y =
     (distinct (map fst (last_synced y)) \<and> (\<forall>(t, r) \<in> set (last_synced y). revs_tag r = t))"

definition mono_writes :: "metasyncer \<Rightarrow> bool" where
  "mono_writes y =
     (\<forall>sid tag. sorted (delivered_versions sid tag (trace y))
        \<and> (\<forall>v \<in> set (delivered_versions sid tag (trace y)). v \<le> lversion y tag))"

text \<open>The broadcast of \<^verbatim>\<open>handlePending\<close>, and the deliveries that follow it.\<close>

definition pending_bcast :: "env \<Rightarrow> (string \<times> payload_val) list \<Rightarrow> NodeMap \<Rightarrow> bcastCallArgs" where
  "pending_bcast e payload pend =
     \<lparr>req = \<lparr>httpMethod = MethodPut, path = metasync_path e, body = PayloadBody payload\<rparr>,
      network = NetworkIntraControl, timeout = CplaneOperation (Timeout (config e)),
      nodes = [pend]\<rparr>"

definition pending_deliveries :: "env \<Rightarrow> NodeMap \<Rightarrow> (string \<times> revs) list \<Rightarrow> event list" where
  "pending_deliveries e pend published =
     concat (map (\<lambda>sid. map (\<lambda>(t, r). Delivered sid (revs_tag r) (revs_version r)) published)
                 (filter (\<lambda>sid. reply0 e sid = None) (filter (\<lambda>sid. sid \<noteq> p_si e) pend)))"

text \<open>
  The retry rounds, written out.  \<open>still_refused e i refused\<close> are the peers of \<open>refused\<close>
  that round \<open>i\<close> does not remove: the node itself, which no broadcast calls, and the peers
  whose call fails in round \<open>i\<close>.  \<open>refused_from e i refused k\<close> are the peers still refused
  after the \<open>k\<close> rounds \<open>i, \<dots>, i + k - 1\<close>.  \<open>round_events\<close> is what the \<open>k\<close>-th of these rounds
  does: one sleep, one broadcast to the peers refused at its start, and the deliveries to
  those that answer.
\<close>

definition still_refused :: "env \<Rightarrow> nat \<Rightarrow> NodeMap \<Rightarrow> NodeMap" where
  "still_refused e i refused =
     filter (\<lambda>sid. sid = p_si e \<or> reply_retry e i sid \<noteq> None) refused"

primrec refused_from :: "env \<Rightarrow> nat \<Rightarrow> NodeMap \<Rightarrow> nat \<Rightarrow> NodeMap" where
  "refused_from e i refused 0 = refused"
| "refused_from e i refused (Suc k) = still_refused e (i + k) (refused_from e i refused k)"

definition retry_deliveries :: "env \<Rightarrow> nat \<Rightarrow> revspair list \<Rightarrow> NodeMap \<Rightarrow> event list" where
  "retry_deliveries e i pairs refused =
     concat (map (\<lambda>sid. map (\<lambda>p. Delivered sid (ptag p) (pver p)) pairs)
                 (filter (\<lambda>sid. sid \<noteq> p_si e \<and> reply_retry e i sid = None) refused))"

definition round_events ::
  "env \<Rightarrow> http_method \<Rightarrow> string \<Rightarrow> wire_body \<Rightarrow> revspair list \<Rightarrow> nat \<Rightarrow> NodeMap \<Rightarrow> nat
     \<Rightarrow> event list" where
  "round_events e m urlPath b pairs i refused k =
     Sleep (CplaneOperation (Timeout (config e)))
     # Bcast (retry_bcast e m urlPath b (refused_from e i refused k))
     # retry_deliveries e (i + k) pairs (refused_from e i refused k)"

definition retry_trace ::
  "env \<Rightarrow> http_method \<Rightarrow> string \<Rightarrow> wire_body \<Rightarrow> revspair list \<Rightarrow> nat \<Rightarrow> NodeMap \<Rightarrow> nat
     \<Rightarrow> event list" where
  "retry_trace e m urlPath b pairs i refused n =
     concat (map (round_events e m urlPath b pairs i refused) [0..<n])"

text \<open>
  A peer is out of sync when it has no entry in the delivery state, or its entry lacks a
  published tag or has it at another version than the published one.  The tags are plain
  when none of them is another one followed by \<^verbatim>\<open>actiontag\<close>, so that in a payload the key
  of an object is never the key of a message.
\<close>

definition out_of_sync :: "metasyncer \<Rightarrow> daemonID \<Rightarrow> bool" where
  "out_of_sync y sid =
     (case map_of (revsmap y) sid of
        None \<Rightarrow> True
      | Some vermap \<Rightarrow> \<not> list_all (\<lambda>(t, r). vermap t = Some (revs_version r)) (last_synced y))"

definition plain_tags :: "string list \<Rightarrow> bool" where
  "plain_tags tags = list_all (\<lambda>t. list_all (\<lambda>t'. t \<noteq> t' @ actiontag) tags) tags"

text \<open>
  The bucket metadata is synchronized at version 1, the retry timer's handler runs, and
  the bucket metadata is synchronized at version 2.
\<close>

definition ex_pair2 :: revspair where
  "ex_pair2 = \<lparr>pair_revs = ex_bmd2, pair_msgInt = Some ex_msg\<rparr>"

definition ex_ops :: "op list" where
  "ex_ops = [OpSync ex_env [ex_pair] None, OpPending ex_env, OpSync ex_env [ex_pair2] None]"

text \<open>
  The target answers the first synchronization with an error that is not a refusal, and
  is reachable again when the retry timer fires.
\<close>

definition ex_env_fail :: env where
  "ex_env_fail = ex_env\<lparr>reply0 := (\<lambda>sid. Some ErrOther)\<rparr>"

definition ex_rq :: revsReq where
  "ex_rq = \<lparr>req_pairs = [ex_pair], req_wg = False, req_msgInt = None, req_failedCnt = False\<rparr>"

definition ex_queued :: metasyncer where
  "ex_queued = newmetasyncer\<lparr>workCh := [ex_rq]\<rparr>"

text \<open>The request has been handled: one call failed, and the retry timer is armed.\<close>

definition ex_failed :: metasyncer where
  "ex_failed =
     newmetasyncer\<lparr>last_synced := [(bucketmdtag, ex_bmd)],
                   lastclone := [bucketmdtag \<mapsto> ''bmd-v1''],
                   retryTimer := Some 2000000000, timerStopped := False,
                   trace := [Bcast ex_bcast]\<rparr>"

text \<open>The broadcast of \<^verbatim>\<open>handlePending\<close> to the two pending nodes, and the state after it.\<close>

definition ex_pending_msg :: actionMsgInternal where
  "ex_pending_msg = \<lparr>Action = '''', Value = ''metasync: handle-pending'', BMDVersion = 1,
                     SmapVersion = 2, NewDaemonID = ''''\<rparr>"

definition ex_pending_bcast :: bcastCallArgs where
  "ex_pending_bcast =
     \<lparr>req = \<lparr>httpMethod = MethodPut, path = ''/v1/metasync'',
              body = PayloadBody [(bucketmdtag, RevsJSON ''bmd-v1''),
                                  (bucketmdtag @ actiontag, ActionJSON ex_pending_msg)]\<rparr>,
      network = NetworkIntraControl, timeout = 1000000000, nodes = [[''P0'', ''T1'']]\<rparr>"

definition ex_retried :: metasyncer where
  "ex_retried =
     ex_failed\<lparr>revsmap := [(''T1'', [bucketmdtag \<mapsto> 1]), (''P0'', Map.empty)],
               retryTimer := None, timerStopped := True,
               trace := [Bcast ex_bcast, Bcast ex_pending_bcast,
                         Delivered ''T1'' bucketmdtag 1]\<rparr>"
section \<open>Properties of the configuration loader\<close>

lemma SetLogLevel_Net: "SetLogLevel e c l = Some c' \<Longrightarrow> Net c' = Net c"
  by (auto simp: SetLogLevel_def split: if_splits)

lemma cli_override_Net: "cli_override e clivars c = Inr (c', ch) \<Longrightarrow> Net c' = Net c"
  by (auto simp: cli_override_def Let_def split: if_splits option.splits dest!: SetLogLevel_Net)

lemma validateConfig_Net:
  assumes "validateConfig e config0 = Some config1"
  shows "\<exists>port portIC portID.
           ParsePort e (PortStr (L4 (Net config0))) = Some port
         \<and> parse_intra_port e (PortIntraControlStr (L4 (Net config0))) = Some portIC
         \<and> parse_intra_port e (PortIntraDataStr (L4 (Net config0))) = Some portID
         \<and> Net config1 = (Net config0)
               \<lparr>L4 := (L4 (Net config0))\<lparr>Port := port, PortIntraControl := portIC,
                                          PortIntraData := portID\<rparr>,
                IPv4 := remove_spaces (IPv4 (Net config0)),
                IPv4IntraControl := remove_spaces (IPv4IntraControl (Net config0)),
                IPv4IntraData := remove_spaces (IPv4IntraData (Net config0))\<rparr>"
proof -
  from assms obtain c' net where
      vn: "validate_net e (Net config0) = Some net" and c1: "config1 = c'\<lparr>Net := net\<rparr>"
    by (auto simp: validateConfig_def split: option.splits)
  from vn obtain port portIC portID where
      p: "ParsePort e (PortStr (L4 (Net config0))) = Some port"
    and pc: "parse_intra_port e (PortIntraControlStr (L4 (Net config0))) = Some portIC"
    and pd: "parse_intra_port e (PortIntraDataStr (L4 (Net config0))) = Some portID"
    by (auto simp: validate_net_def split: option.splits)
  from vn have "net = (Net config0)
               \<lparr>L4 := (L4 (Net config0))\<lparr>Port := port, PortIntraControl := portIC,
                                          PortIntraData := portID\<rparr>,
                IPv4 := remove_spaces (IPv4 (Net config0)),
                IPv4IntraControl := remove_spaces (IPv4IntraControl (Net config0)),
                IPv4IntraData := remove_spaces (IPv4IntraData (Net config0))\<rparr>"
    unfolding validate_net_def p pc pd option.case Let_def
    by (simp split: if_splits)
  with p pc pd c1 show ?thesis by simp
qed

text \<open>
  C9.  Whenever \<^verbatim>\<open>LoadConfig\<close> returns (rather than exiting), the network section it commits
  is that of the configuration file with the three ports parsed, the spaces of the three
  address lists removed, the protocol set, and the two flags set: \<^verbatim>\<open>Net.UseIntraControl\<close> is
  true exactly when the configured intra-control address list (\<^verbatim>\<open>ipv4_intra_control\<close>) is
  non-empty, the configured intra-control port (\<^verbatim>\<open>port_intra_control\<close>; 0 when it is the empty
  string) is non-zero, and the address list or the port differs from the public one; and the
  same for \<^verbatim>\<open>Net.UseIntraData\<close> with the intra-data address list and port.  The flags are
  therefore in this relation to the committed addresses and ports as well.
\<close>

theorem LoadConfig_use_intra:
  assumes "LoadConfig e clivars = Inr r"
  shows "\<exists>config0 port portIC portID.
           LocalLoad e (ConfFile clivars) = Some config0
         \<and> ParsePort e (PortStr (L4 (Net config0))) = Some port
         \<and> parse_intra_port e (PortIntraControlStr (L4 (Net config0))) = Some portIC
         \<and> parse_intra_port e (PortIntraDataStr (L4 (Net config0))) = Some portID
         \<and> Net (ld_config r) = (Net config0)
               \<lparr>L4 := (L4 (Net config0))\<lparr>Port := port, PortIntraControl := portIC,
                                          PortIntraData := portID\<rparr>,
                IPv4 := remove_spaces (IPv4 (Net config0)),
                IPv4IntraControl := remove_spaces (IPv4IntraControl (Net config0)),
                IPv4IntraData := remove_spaces (IPv4IntraData (Net config0)),
                HTTP := (HTTP (Net config0))
                   \<lparr>Proto := (if UseHTTPS (HTTP (Net config0)) then ''https'' else ''http'')\<rparr>,
                UseIntraControl :=
                  (remove_spaces (IPv4IntraControl (Net config0)) \<noteq> '''' \<and> portIC \<noteq> 0
                   \<and> (remove_spaces (IPv4 (Net config0))
                          \<noteq> remove_spaces (IPv4IntraControl (Net config0))
                      \<or> port \<noteq> portIC)),
                UseIntraData :=
                  (remove_spaces (IPv4IntraData (Net config0)) \<noteq> '''' \<and> portID \<noteq> 0
                   \<and> (remove_spaces (IPv4 (Net config0))
                          \<noteq> remove_spaces (IPv4IntraData (Net config0))
                      \<or> port \<noteq> portID))\<rparr>
         \<and> UseIntraControl (Net (ld_config r)) =
             (IPv4IntraControl (Net (ld_config r)) \<noteq> ''''
              \<and> PortIntraControl (L4 (Net (ld_config r))) \<noteq> 0
              \<and> (IPv4 (Net (ld_config r)) \<noteq> IPv4IntraControl (Net (ld_config r))
                 \<or> Port (L4 (Net (ld_config r))) \<noteq> PortIntraControl (L4 (Net (ld_config r)))))
         \<and> UseIntraData (Net (ld_config r)) =
             (IPv4IntraData (Net (ld_config r)) \<noteq> ''''
              \<and> PortIntraData (L4 (Net (ld_config r))) \<noteq> 0
              \<and> (IPv4 (Net (ld_config r)) \<noteq> IPv4IntraData (Net (ld_config r))
                 \<or> Port (L4 (Net (ld_config r))) \<noteq> PortIntraData (L4 (Net (ld_config r)))))"
proof -
  from assms obtain config0 c1 ch where
      ll: "LocalLoad e (ConfFile clivars) = Some config0"
    and vc: "validateConfig e config0 = Some c1"
    and ov: "cli_override e clivars (set_intra_data (set_intra_control (set_proto c1)))
             = Inr (ld_config r, ch)"
    by (auto simp: LoadConfig_def split: option.splits if_splits sum.splits)
  from validateConfig_Net [OF vc] obtain port portIC portID where
      p: "ParsePort e (PortStr (L4 (Net config0))) = Some port"
    and pc: "parse_intra_port e (PortIntraControlStr (L4 (Net config0))) = Some portIC"
    and pd: "parse_intra_port e (PortIntraDataStr (L4 (Net config0))) = Some portID"
    and n1: "Net c1 = (Net config0)
               \<lparr>L4 := (L4 (Net config0))\<lparr>Port := port, PortIntraControl := portIC,
                                          PortIntraData := portID\<rparr>,
                IPv4 := remove_spaces (IPv4 (Net config0)),
                IPv4IntraControl := remove_spaces (IPv4IntraControl (Net config0)),
                IPv4IntraData := remove_spaces (IPv4IntraData (Net config0))\<rparr>"
    by (elim exE conjE)
  have n: "Net (ld_config r) = Net (set_intra_data (set_intra_control (set_proto c1)))"
    by (rule cli_override_Net [OF ov])
  have "Net (ld_config r) = (Net config0)
               \<lparr>L4 := (L4 (Net config0))\<lparr>Port := port, PortIntraControl := portIC,
                                          PortIntraData := portID\<rparr>,
                IPv4 := remove_spaces (IPv4 (Net config0)),
                IPv4IntraControl := remove_spaces (IPv4IntraControl (Net config0)),
                IPv4IntraData := remove_spaces (IPv4IntraData (Net config0)),
                HTTP := (HTTP (Net config0))
                   \<lparr>Proto := (if UseHTTPS (HTTP (Net config0)) then ''https'' else ''http'')\<rparr>,
                UseIntraControl :=
                  (remove_spaces (IPv4IntraControl (Net config0)) \<noteq> '''' \<and> portIC \<noteq> 0
                   \<and> (remove_spaces (IPv4 (Net config0))
                          \<noteq> remove_spaces (IPv4IntraControl (Net config0))
                      \<or> port \<noteq> portIC)),
                UseIntraData :=
                  (remove_spaces (IPv4IntraData (Net config0)) \<noteq> '''' \<and> portID \<noteq> 0
                   \<and> (remove_spaces (IPv4 (Net config0))
                          \<noteq> remove_spaces (IPv4IntraData (Net config0))
                      \<or> port \<noteq> portID))\<rparr>"
    unfolding n by (simp add: set_intra_data_def set_intra_control_def set_proto_def Let_def n1)
  moreover have "UseIntraControl (Net (ld_config r)) =
             (IPv4IntraControl (Net (ld_config r)) \<noteq> ''''
              \<and> PortIntraControl (L4 (Net (ld_config r))) \<noteq> 0
              \<and> (IPv4 (Net (ld_config r)) \<noteq> IPv4IntraControl (Net (ld_config r))
                 \<or> Port (L4 (Net (ld_config r))) \<noteq> PortIntraControl (L4 (Net (ld_config r)))))"
    unfolding n by (simp add: set_intra_data_def set_intra_control_def set_proto_def Let_def)
  moreover have "UseIntraData (Net (ld_config r)) =
             (IPv4IntraData (Net (ld_config r)) \<noteq> ''''
              \<and> PortIntraData (L4 (Net (ld_config r))) \<noteq> 0
              \<and> (IPv4 (Net (ld_config r)) \<noteq> IPv4IntraData (Net (ld_config r))
                 \<or> Port (L4 (Net (ld_config r))) \<noteq> PortIntraData (L4 (Net (ld_config r)))))"
    unfolding n by (simp add: set_intra_data_def set_intra_control_def set_proto_def Let_def)
  ultimately show ?thesis using ll p pc pd by (intro exI conjI)
qed

lemmas cfg_eval = LoadConfig_def validateConfig_def validate_net_def parse_intra_port_def
  ipv4ListsOverlap_def remove_spaces_def TrimSpace_def isSpace_def RevProxyCloud_def
  RevProxyTarget_def cli_override_def SetLogLevel_def set_intra_data_def set_intra_control_def
  set_proto_def glog_rotate_def Let_def ex_load_env_def ex_cli_def ex_conf_file_def
  ex_config_def ex_loaded_def

theorem LoadConfig_use_intra_witness:
  "LoadConfig ex_load_env ex_cli = Inr ex_loaded
   \<and> LocalLoad ex_load_env (ConfFile ex_cli) = Some ex_conf_file
   \<and> IPv4IntraControl (Net ex_conf_file) = ''10.1.0.1''
   \<and> PortIntraControlStr (L4 (Net ex_conf_file)) = ''9080''
   \<and> IPv4IntraData (Net ex_conf_file) = ''''
   \<and> UseIntraControl (Net (ld_config ex_loaded)) \<and> \<not> UseIntraData (Net (ld_config ex_loaded))"
proof -
  have h: "LoadConfig ex_load_env ex_cli = Inr ex_loaded"
    by (simp add: cfg_eval)
  have l: "LocalLoad ex_load_env (ConfFile ex_cli) = Some ex_conf_file"
    by (simp add: ex_load_env_def ex_cli_def)
  have f: "IPv4IntraControl (Net ex_conf_file) = ''10.1.0.1''
           \<and> PortIntraControlStr (L4 (Net ex_conf_file)) = ''9080''
           \<and> IPv4IntraData (Net ex_conf_file) = ''''
           \<and> IPv4 (Net ex_conf_file) = ''10.0.0.1''
           \<and> PortStr (L4 (Net ex_conf_file)) = ''8080''
           \<and> PortIntraDataStr (L4 (Net ex_conf_file)) = ''''"
    by (simp add: ex_conf_file_def)
  have pp: "ParsePort ex_load_env ''8080'' = Some 8080"
           "parse_intra_port ex_load_env ''9080'' = Some 9080"
           "parse_intra_port ex_load_env '''' = Some 0"
    by (simp_all add: ex_load_env_def parse_intra_port_def)
  from LoadConfig_use_intra [OF h] obtain config0 port portIC portID where
      a: "LocalLoad ex_load_env (ConfFile ex_cli) = Some config0"
    and b: "ParsePort ex_load_env (PortStr (L4 (Net config0))) = Some port"
           "parse_intra_port ex_load_env (PortIntraControlStr (L4 (Net config0))) = Some portIC"
           "parse_intra_port ex_load_env (PortIntraDataStr (L4 (Net config0))) = Some portID"
    and c: "UseIntraControl (Net (ld_config ex_loaded)) =
             (IPv4IntraControl (Net (ld_config ex_loaded)) \<noteq> ''''
              \<and> PortIntraControl (L4 (Net (ld_config ex_loaded))) \<noteq> 0
              \<and> (IPv4 (Net (ld_config ex_loaded)) \<noteq> IPv4IntraControl (Net (ld_config ex_loaded))
                 \<or> Port (L4 (Net (ld_config ex_loaded)))
                      \<noteq> PortIntraControl (L4 (Net (ld_config ex_loaded)))))"
    and d: "UseIntraData (Net (ld_config ex_loaded)) =
             (IPv4IntraData (Net (ld_config ex_loaded)) \<noteq> ''''
              \<and> PortIntraData (L4 (Net (ld_config ex_loaded))) \<noteq> 0
              \<and> (IPv4 (Net (ld_config ex_loaded)) \<noteq> IPv4IntraData (Net (ld_config ex_loaded))
                 \<or> Port (L4 (Net (ld_config ex_loaded)))
                      \<noteq> PortIntraData (L4 (Net (ld_config ex_loaded)))))"
    by (elim exE conjE)
  have n: "IPv4IntraControl (Net (ld_config ex_loaded)) = ''10.1.0.1''
           \<and> PortIntraControl (L4 (Net (ld_config ex_loaded))) = 9080
           \<and> IPv4 (Net (ld_config ex_loaded)) = ''10.0.0.1''
           \<and> IPv4IntraData (Net (ld_config ex_loaded)) = ''''"
    by (simp add: ex_loaded_def ex_config_def)
  show ?thesis using h l f c d n by simp
qed
section \<open>Evaluation on concrete inputs\<close>

declare retry_refused.simps [simp del]

lemmas ms_eval = doSync_def newmetasyncer_def countNewMembers_def lversion_def
  smaptag_def bucketmdtag_def tokentag_def actiontag_def bcast_steps_def broadcastTo_def
  broadcast_def syncDone_def retry_refused.simps handleRefused_def housekeep_def containsID_def
  isPrimary_def becomeNonPrimary_def IsErrConnectionRefused_def Let_def

lemmas ex_defs = ex_env_def ex_smap_def ex_pair_def ex_bmd_def ex_msg_def ex_config_def

section \<open>What the steps of doSync change\<close>

lemma syncDone_trace [simp]:
  "trace (syncDone sid pairs y) = trace y @ map (\<lambda>p. Delivered sid (ptag p) (pver p)) pairs"
  by (simp add: syncDone_def Let_def)

lemma syncDone_frame [simp]: "frame y (syncDone sid pairs y)"
  by (simp add: syncDone_def frame_def Let_def)

lemma frame_refl [simp]: "frame y y"
  by (simp add: frame_def)

lemma frame_trans: "frame y y1 \<Longrightarrow> frame y1 y2 \<Longrightarrow> frame y y2"
  by (simp add: frame_def)

lemma frame_trace_upd [simp]: "frame y (y1\<lparr>trace := tr\<rparr>) = frame y y1"
  by (simp add: frame_def)

lemma deliveries_Nil [simp]: "deliveries S pairs []"
  by (simp add: deliveries_def)

lemma deliveries_append [simp]:
  "deliveries S pairs (a @ b) = (deliveries S pairs a \<and> deliveries S pairs b)"
  by (auto simp: deliveries_def)

lemma deliveries_map [simp]:
  "sid \<in> S \<Longrightarrow> deliveries S pairs (map (\<lambda>p. Delivered sid (ptag p) (pver p)) pairs)"
  by (auto simp: deliveries_def)

lemma deliveries_mono: "deliveries S pairs evs \<Longrightarrow> S \<subseteq> S' \<Longrightarrow> deliveries S' pairs evs"
  by (fastforce simp: deliveries_def)

lemma count_failures_effect:
  "count_failures pairs ntid res refused cnt y = ((refused', cnt'), y') \<Longrightarrow>
     frame y y' \<and> (\<exists>evs. trace y' = trace y @ evs \<and> deliveries (si ` set res) pairs evs)"
proof (induction res arbitrary: refused cnt y)
  case Nil
  then show ?case by simp
next
  case (Cons r res)
  show ?case
  proof (cases "err r = None")
    case True
    let ?y1 = "if length pairs > 0 then syncDone (si r) pairs y else y"
    from Cons.prems True have "count_failures pairs ntid res refused cnt ?y1 = ((refused', cnt'), y')"
      by simp
    from Cons.IH [OF this] obtain evs where f: "frame ?y1 y'" and t: "trace y' = trace ?y1 @ evs"
      and d: "deliveries (si ` set res) pairs evs" by blast
    have f1: "frame y ?y1" by simp
    have "deliveries (si ` set (r # res)) pairs evs"
      using d by (rule deliveries_mono) auto
    with t f f1 show ?thesis
      by (auto intro: frame_trans)
  next
    case False
    with Cons.prems obtain rf c where
      "count_failures pairs ntid res rf c y = ((refused', cnt'), y')"
      by (auto split: if_splits)
    from Cons.IH [OF this] obtain evs where f: "frame y y'" and t: "trace y' = trace y @ evs"
      and d: "deliveries (si ` set res) pairs evs" by blast
    have "deliveries (si ` set (r # res)) pairs evs"
      using d by (rule deliveries_mono) auto
    with t f show ?thesis by auto
  qed
qed

lemma refused_results_effect:
  "refused_results pairs res refused y = (refused', y') \<Longrightarrow>
     frame y y' \<and> set refused' \<subseteq> set refused
     \<and> (\<exists>evs. trace y' = trace y @ evs \<and> deliveries (si ` set res) pairs evs)"
proof (induction res arbitrary: refused y)
  case Nil
  then show ?case by simp
next
  case (Cons r res)
  show ?case
  proof (cases "err r = None")
    case True
    with Cons.prems have
      "refused_results pairs res (removeAll (si r) refused) (syncDone (si r) pairs y) = (refused', y')"
      by simp
    from Cons.IH [OF this] obtain evs where f: "frame (syncDone (si r) pairs y) y'"
      and s: "set refused' \<subseteq> set (removeAll (si r) refused)"
      and t: "trace y' = trace (syncDone (si r) pairs y) @ evs"
      and d: "deliveries (si ` set res) pairs evs" by blast
    have "deliveries (si ` set (r # res)) pairs evs"
      using d by (rule deliveries_mono) auto
    moreover have "frame y y'"
      using syncDone_frame f by (rule frame_trans)
    ultimately show ?thesis using s t by auto
  next
    case False
    with Cons.prems have "refused_results pairs res refused y = (refused', y')" by simp
    from Cons.IH [OF this] obtain evs where f: "frame y y'" and s: "set refused' \<subseteq> set refused"
      and t: "trace y' = trace y @ evs" and d: "deliveries (si ` set res) pairs evs" by blast
    have "deliveries (si ` set (r # res)) pairs evs"
      using d by (rule deliveries_mono) auto
    with f s t show ?thesis by auto
  qed
qed

lemma broadcast_effect:
  "broadcast e reply args y = (res, y') \<Longrightarrow>
     y' = y\<lparr>trace := trace y @ [Bcast args]\<rparr>
     \<and> res = map (\<lambda>sid. \<lparr>si = sid, err = reply sid\<rparr>)
                (filter (\<lambda>sid. sid \<noteq> p_si e) (concat (nodes args)))"
  by (auto simp: broadcast_def)

lemma broadcast_si: "broadcast e reply args y = (res, y') \<Longrightarrow>
   si ` set res = {sid \<in> set (concat (nodes args)). sid \<noteq> p_si e}"
  by (force simp: broadcast_def image_iff)

lemma handleRefused_effect:
  assumes "handleRefused e i m urlPath b refused pairs y = (refused', y')"
  shows "frame y y' \<and> set refused' \<subseteq> set refused
     \<and> (\<exists>evs. trace y' = trace y @ Bcast (retry_bcast e m urlPath b refused) # evs
              \<and> deliveries (set refused) pairs evs)"
proof -
  obtain res y1 where b: "broadcast e (reply_retry e i) (retry_bcast e m urlPath b refused) y = (res, y1)"
    by (cases "broadcast e (reply_retry e i) (retry_bcast e m urlPath b refused) y")
  with assms have rr: "refused_results pairs res refused y1 = (refused', y')"
    by (simp add: handleRefused_def retry_bcast_def)
  from broadcast_effect [OF b] have y1: "y1 = y\<lparr>trace := trace y @ [Bcast (retry_bcast e m urlPath b refused)]\<rparr>"
    by simp
  from broadcast_si [OF b] have si: "si ` set res \<subseteq> set refused"
    by (auto simp: retry_bcast_def)
  from refused_results_effect [OF rr] obtain evs where f: "frame y1 y'"
     and s: "set refused' \<subseteq> set refused" and t: "trace y' = trace y1 @ evs"
     and d: "deliveries (si ` set res) pairs evs" by blast
  have "deliveries (set refused) pairs evs" using d si by (rule deliveries_mono)
  moreover have "frame y y'" using f by (simp add: y1 frame_def)
  ultimately show ?thesis using s t by (simp add: y1)
qed

lemma deliveries_no_sleep: "deliveries S pairs evs \<Longrightarrow> filter is_Sleep evs = []"
  by (induction evs) (auto simp: deliveries_def)

lemma deliveries_no_bcast: "deliveries S pairs evs \<Longrightarrow> filter is_Bcast evs = []"
  by (induction evs) (auto simp: deliveries_def)

lemma deliveries_retry_event:
  "deliveries (set refused) pairs evs \<Longrightarrow> ev \<in> set evs \<Longrightarrow> retry_event e m urlPath b refused pairs ev"
  by (auto simp: deliveries_def retry_event_def)

lemma retry_event_mono:
  "retry_event e m urlPath b refused' pairs ev \<Longrightarrow> set refused' \<subseteq> set refused
     \<Longrightarrow> retry_event e m urlPath b refused pairs ev"
  unfolding retry_event_def by (elim disjE exE conjE) (blast+)

lemma frame_becomeNonPrimary_trace [simp]:
  "frame (becomeNonPrimary y) (becomeNonPrimary (y\<lparr>trace := tr\<rparr>))"
  by (simp add: frame_def becomeNonPrimary_def)

lemma frame_becomeNonPrimary: "frame y y1 \<Longrightarrow> frame (becomeNonPrimary y) y2 = frame (becomeNonPrimary y1) y2"
  by (auto simp: frame_def becomeNonPrimary_def)

lemma retry_refused_effect:
  "retry_refused e i m urlPath b pairs refused y = (r, y') \<Longrightarrow>
     (\<exists>evs. trace y' = trace y @ evs
         \<and> (\<forall>ev \<in> set evs. retry_event e m urlPath b refused pairs ev)
         \<and> length (filter is_Sleep evs) \<le> 10 - i
         \<and> length (filter is_Bcast evs) \<le> length (filter is_Sleep evs))
     \<and> (case r of
           Some refused' \<Rightarrow> frame y y' \<and> set refused' \<subseteq> set refused
         | None \<Rightarrow> frame (becomeNonPrimary y) y'
                   \<and> (\<exists>j. i \<le> j \<and> j < 10 \<and> \<not> isPrimary (smap_retry e j) (p_si e)))"
proof (induction e i m urlPath b pairs refused y arbitrary: r y' rule: retry_refused.induct)
  case (1 e i m urlPath b pairs refused y)
  let ?slept = "y\<lparr>trace := trace y @ [Sleep (CplaneOperation (Timeout (config e)))]\<rparr>"
  show ?case
  proof (cases "\<not> i < 10 \<or> length refused = 0")
    case True
    with "1.prems" have "r = Some refused" "y' = y"
      by (auto simp: retry_refused.simps)
    then show ?thesis by simp
  next
    case run: False
    show ?thesis
    proof (cases "isPrimary (smap_retry e i) (p_si e)")
      case False
      with run "1.prems" have r: "r = None" and y': "y' = becomeNonPrimary ?slept"
        by (auto simp: retry_refused.simps)
      have "trace y' = trace y @ [Sleep (CplaneOperation (Timeout (config e)))]"
        by (simp add: y' becomeNonPrimary_def)
      moreover have "retry_event e m urlPath b refused pairs
                       (Sleep (CplaneOperation (Timeout (config e))))"
        by (simp add: retry_event_def)
      moreover have "i < 10" using run by simp
      ultimately show ?thesis using False r y' by auto
    next
      case True
      obtain refused1 y1 where hr: "handleRefused e i m urlPath b refused pairs ?slept = (refused1, y1)"
        by (cases "handleRefused e i m urlPath b refused pairs ?slept")
      with run True "1.prems" have rec: "retry_refused e (i + 1) m urlPath b pairs refused1 y1 = (r, y')"
        by (simp add: retry_refused.simps [of e i])
      from handleRefused_effect [OF hr] obtain evs1 where f1: "frame ?slept y1"
        and s1: "set refused1 \<subseteq> set refused"
        and t1: "trace y1 = trace ?slept @ Bcast (retry_bcast e m urlPath b refused) # evs1"
        and d1: "deliveries (set refused) pairs evs1" by blast
      have ih: "(\<exists>evs. trace y' = trace y1 @ evs
         \<and> (\<forall>ev \<in> set evs. retry_event e m urlPath b refused1 pairs ev)
         \<and> length (filter is_Sleep evs) \<le> 10 - (i + 1)
         \<and> length (filter is_Bcast evs) \<le> length (filter is_Sleep evs))
        \<and> (case r of
           Some refused' \<Rightarrow> frame y1 y' \<and> set refused' \<subseteq> set refused1
         | None \<Rightarrow> frame (becomeNonPrimary y1) y'
                   \<and> (\<exists>j. i + 1 \<le> j \<and> j < 10 \<and> \<not> isPrimary (smap_retry e j) (p_si e)))"
      proof -
        have fs: "fst (handleRefused e i m urlPath b refused pairs ?slept) = refused1"
                 "snd (handleRefused e i m urlPath b refused pairs ?slept) = y1"
          using hr by simp_all
        have nn: "\<not> \<not> isPrimary (smap_retry e i) (p_si e)" using True by simp
        have rec': "retry_refused e (i + 1) m urlPath b pairs
                      (fst (handleRefused e i m urlPath b refused pairs ?slept))
                      (snd (handleRefused e i m urlPath b refused pairs ?slept)) = (r, y')"
          using rec fs by simp
        show ?thesis using "1.IH" [OF run nn rec'] unfolding fs .
      qed
      then obtain evs2 where t2: "trace y' = trace y1 @ evs2"
        and e2: "\<forall>ev \<in> set evs2. retry_event e m urlPath b refused1 pairs ev"
        and n2: "length (filter is_Sleep evs2) \<le> 10 - (i + 1)"
        and b2: "length (filter is_Bcast evs2) \<le> length (filter is_Sleep evs2)" by blast
      let ?evs = "Sleep (CplaneOperation (Timeout (config e)))
                  # Bcast (retry_bcast e m urlPath b refused) # evs1 @ evs2"
      have fy: "frame y y1" using f1 by (simp add: frame_def)
      have "trace y' = trace y @ ?evs" using t1 t2 by simp
      moreover have "\<forall>ev \<in> set ?evs. retry_event e m urlPath b refused pairs ev"
      proof
        fix ev assume "ev \<in> set ?evs"
        then consider "ev = Sleep (CplaneOperation (Timeout (config e)))"
          | "ev = Bcast (retry_bcast e m urlPath b refused)" | "ev \<in> set evs1" | "ev \<in> set evs2"
          by auto
        then show "retry_event e m urlPath b refused pairs ev"
        proof cases
          case 1 then show ?thesis by (simp add: retry_event_def)
        next
          case 2 then show ?thesis by (auto simp: retry_event_def retry_bcast_def)
        next
          case 3 with d1 show ?thesis by (rule deliveries_retry_event)
        next
          case 4 with e2 s1 show ?thesis by (blast intro: retry_event_mono)
        qed
      qed
      moreover have "length (filter is_Sleep ?evs) \<le> 10 - i"
      proof -
        have "i < 10" using run by simp
        with n2 have "Suc (length (filter is_Sleep evs2)) \<le> 10 - i" by arith
        then show ?thesis using deliveries_no_sleep [OF d1] by simp
      qed
      moreover have "length (filter is_Bcast ?evs) \<le> length (filter is_Sleep ?evs)"
        using b2 deliveries_no_bcast [OF d1] deliveries_no_sleep [OF d1] by simp
      moreover have "case r of
           Some refused' \<Rightarrow> frame y y' \<and> set refused' \<subseteq> set refused
         | None \<Rightarrow> frame (becomeNonPrimary y) y'
                   \<and> (\<exists>j. i \<le> j \<and> j < 10 \<and> \<not> isPrimary (smap_retry e j) (p_si e))"
      proof (cases r)
        case None
        with ih have a: "frame (becomeNonPrimary y1) y'"
          and "\<exists>j. i + 1 \<le> j \<and> j < 10 \<and> \<not> isPrimary (smap_retry e j) (p_si e)" by auto
        then obtain j where "i \<le> j" "j < 10" "\<not> isPrimary (smap_retry e j) (p_si e)"
          by (metis Suc_leD Suc_eq_plus1)
        moreover have "frame (becomeNonPrimary y) y'"
          using a frame_becomeNonPrimary [OF fy] by simp
        ultimately show ?thesis using None by auto
      next
        case (Some refused')
        with ih have "frame y1 y'" "set refused' \<subseteq> set refused1" by auto
        with fy s1 Some show ?thesis by (auto intro: frame_trans)
      qed
      ultimately show ?thesis by blast
    qed
  qed
qed

lemma refused_results_set:
  "refused_results pairs res refused y = (refused', y') \<Longrightarrow>
     set refused' = set refused - si ` set (filter (\<lambda>r. err r = None) res)"
proof (induction res arbitrary: refused y)
  case Nil
  then show ?case by simp
next
  case (Cons r res)
  show ?case
  proof (cases "err r = None")
    case True
    with Cons.prems have
      "refused_results pairs res (removeAll (si r) refused) (syncDone (si r) pairs y) = (refused', y')"
      by simp
    from Cons.IH [OF this]
    have "set refused' = set refused - {si r} - si ` set (filter (\<lambda>r. err r = None) res)"
      by simp
    also have "\<dots> = set refused - insert (si r) (si ` set (filter (\<lambda>r. err r = None) res))"
      by blast
    finally show ?thesis by (simp add: True)
  next
    case False
    with Cons.prems have "refused_results pairs res refused y = (refused', y')" by simp
    from Cons.IH [OF this] show ?thesis by (simp add: False)
  qed
qed


lemma broadcast_results_ok_list:
  "map si (filter (\<lambda>r. err r = None)
        (map (\<lambda>sid. \<lparr>si = sid, err = reply sid\<rparr>) (filter (\<lambda>sid. sid \<noteq> self) xs)))
     = filter (\<lambda>sid. sid \<noteq> self \<and> reply sid = None) xs"
  by (induction xs) simp_all

lemma broadcast_results_ok:
  "si ` set (filter (\<lambda>r. err r = None)
        (map (\<lambda>sid. \<lparr>si = sid, err = reply sid\<rparr>) (filter (\<lambda>sid. sid \<noteq> self) xs)))
     = {sid \<in> set xs. sid \<noteq> self \<and> reply sid = None}"
proof -
  have "si ` set (filter (\<lambda>r. err r = None)
        (map (\<lambda>sid. \<lparr>si = sid, err = reply sid\<rparr>) (filter (\<lambda>sid. sid \<noteq> self) xs)))
     = set (filter (\<lambda>sid. sid \<noteq> self \<and> reply sid = None) xs)"
    unfolding broadcast_results_ok_list [symmetric] by (rule set_map [symmetric])
  then show ?thesis by simp
qed

lemma handleRefused_set:
  assumes "handleRefused e i m urlPath b refused pairs y = (refused', y')"
  shows "set refused' = {sid \<in> set refused. sid = p_si e \<or> reply_retry e i sid \<noteq> None}"
proof -
  obtain res y1 where b: "broadcast e (reply_retry e i) (retry_bcast e m urlPath b refused) y = (res, y1)"
    by (cases "broadcast e (reply_retry e i) (retry_bcast e m urlPath b refused) y")
  with assms have rr: "refused_results pairs res refused y1 = (refused', y')"
    by (simp add: handleRefused_def retry_bcast_def)
  from broadcast_effect [OF b] have
    res: "res = map (\<lambda>sid. \<lparr>si = sid, err = reply_retry e i sid\<rparr>)
                (filter (\<lambda>sid. sid \<noteq> p_si e) refused)"
    by (simp add: retry_bcast_def)
  have "set refused' = set refused - {sid \<in> set refused. sid \<noteq> p_si e \<and> reply_retry e i sid = None}"
    using refused_results_set [OF rr] unfolding res broadcast_results_ok .
  also have "\<dots> = {sid \<in> set refused. sid = p_si e \<or> reply_retry e i sid \<noteq> None}"
    by auto
  finally show ?thesis .
qed

lemma handleRefused_sleeps:
  assumes "handleRefused e i m urlPath b refused pairs y = (refused', y')"
  shows "length (filter is_Sleep (trace y')) = length (filter is_Sleep (trace y))"
proof -
  from handleRefused_effect [OF assms] obtain evs where
    "trace y' = trace y @ Bcast (retry_bcast e m urlPath b refused) # evs"
    "deliveries (set refused) pairs evs" by blast
  then show ?thesis using deliveries_no_sleep [of "set refused" pairs evs] by simp
qed

lemma retry_refused_rounds:
  "retry_refused e i m urlPath b pairs refused y = (Some refused', y') \<Longrightarrow>
     \<exists>n. i + n \<le> max i 10
        \<and> length (filter is_Sleep (trace y')) = length (filter is_Sleep (trace y)) + n
        \<and> set refused' = {sid \<in> set refused. sid = p_si e
                              \<or> (\<forall>j. i \<le> j \<and> j < i + n \<longrightarrow> reply_retry e j sid \<noteq> None)}
        \<and> (i + n < 10 \<longrightarrow> refused' = [])
        \<and> (\<forall>j. i \<le> j \<and> j < i + n \<longrightarrow> isPrimary (smap_retry e j) (p_si e))
        \<and> (\<forall>k<n. \<exists>sid \<in> set refused. sid = p_si e
                       \<or> (\<forall>j. i \<le> j \<and> j < i + k \<longrightarrow> reply_retry e j sid \<noteq> None))"
proof (induction e i m urlPath b pairs refused y arbitrary: refused' y' rule: retry_refused.induct)
  case (1 e i m urlPath b pairs refused y)
  let ?slept = "y\<lparr>trace := trace y @ [Sleep (CplaneOperation (Timeout (config e)))]\<rparr>"
  show ?case
  proof (cases "\<not> i < 10 \<or> length refused = 0")
    case True
    with "1.prems" have "refused' = refused" "y' = y"
      by (auto simp: retry_refused.simps)
    with True show ?thesis by (intro exI [of _ 0]) auto
  next
    case run: False
    have prim: "isPrimary (smap_retry e i) (p_si e)"
    proof (rule ccontr)
      assume "\<not> isPrimary (smap_retry e i) (p_si e)"
      with run "1.prems" show False by (simp add: retry_refused.simps [of e i])
    qed
    obtain refused1 y1 where hr: "handleRefused e i m urlPath b refused pairs ?slept = (refused1, y1)"
      by (cases "handleRefused e i m urlPath b refused pairs ?slept")
    have fs: "fst (handleRefused e i m urlPath b refused pairs ?slept) = refused1"
             "snd (handleRefused e i m urlPath b refused pairs ?slept) = y1"
      using hr by simp_all
    have nn: "\<not> \<not> isPrimary (smap_retry e i) (p_si e)" using prim by simp
    have rec': "retry_refused e (i + 1) m urlPath b pairs
                  (fst (handleRefused e i m urlPath b refused pairs ?slept))
                  (snd (handleRefused e i m urlPath b refused pairs ?slept)) = (Some refused', y')"
      using "1.prems" run prim by (simp add: retry_refused.simps [of e i])
    from "1.IH" [OF run nn rec', unfolded fs] obtain n where
        n1: "i + 1 + n \<le> max (i + 1) 10"
      and n2: "length (filter is_Sleep (trace y')) = length (filter is_Sleep (trace y1)) + n"
      and n3: "set refused' = {sid \<in> set refused1. sid = p_si e
                  \<or> (\<forall>j. i + 1 \<le> j \<and> j < i + 1 + n \<longrightarrow> reply_retry e j sid \<noteq> None)}"
      and n4: "i + 1 + n < 10 \<longrightarrow> refused' = []"
      and n5: "\<forall>j. i + 1 \<le> j \<and> j < i + 1 + n \<longrightarrow> isPrimary (smap_retry e j) (p_si e)"
      and n6: "\<forall>k<n. \<exists>sid \<in> set refused1. sid = p_si e
                       \<or> (\<forall>j. i + 1 \<le> j \<and> j < i + 1 + k \<longrightarrow> reply_retry e j sid \<noteq> None)"
      by (elim exE conjE)
    have i10: "i < 10" and rne: "refused \<noteq> []" using run by simp_all
    have s1: "length (filter is_Sleep (trace y1)) = length (filter is_Sleep (trace y)) + 1"
      using handleRefused_sleeps [OF hr] by simp
    have r1: "set refused1 = {sid \<in> set refused. sid = p_si e \<or> reply_retry e i sid \<noteq> None}"
      by (rule handleRefused_set [OF hr])
    have split: "\<And>k j. (i \<le> j \<and> j < i + (k + 1)) = (j = i \<or> (i + 1 \<le> j \<and> j < i + 1 + k))"
      by arith
    have all_split: "\<And>k P. (\<forall>j. i \<le> j \<and> j < i + (k + 1) \<longrightarrow> P j)
                      = (P i \<and> (\<forall>j. i + 1 \<le> j \<and> j < i + 1 + k \<longrightarrow> P j))"
      unfolding split by blast
    have c1: "i + (n + 1) \<le> max i 10" using n1 i10 by simp
    have c2: "length (filter is_Sleep (trace y'))
                     = length (filter is_Sleep (trace y)) + (n + 1)"
      using n2 s1 by simp
    have c3: "set refused' = {sid \<in> set refused. sid = p_si e
                  \<or> (\<forall>j. i \<le> j \<and> j < i + (n + 1) \<longrightarrow> reply_retry e j sid \<noteq> None)}"
      unfolding n3 r1 all_split by blast
    have c4: "i + (n + 1) < 10 \<longrightarrow> refused' = []" using n4 by simp
    have c5: "\<forall>j. i \<le> j \<and> j < i + (n + 1) \<longrightarrow> isPrimary (smap_retry e j) (p_si e)"
      unfolding all_split using prim n5 by simp
    have c6: "\<forall>k<n + 1. \<exists>sid \<in> set refused. sid = p_si e
                       \<or> (\<forall>j. i \<le> j \<and> j < i + k \<longrightarrow> reply_retry e j sid \<noteq> None)"
    proof (intro allI impI)
      fix k assume k: "k < n + 1"
      show "\<exists>sid \<in> set refused. sid = p_si e
                       \<or> (\<forall>j. i \<le> j \<and> j < i + k \<longrightarrow> reply_retry e j sid \<noteq> None)"
      proof (cases k)
        case 0
        from rne obtain sid where "sid \<in> set refused" by (cases refused) auto
        with 0 show ?thesis by auto
      next
        case (Suc k')
        with k have "k' < n" by simp
        with n6 obtain sid where s: "sid \<in> set refused1"
          and a: "sid = p_si e
                  \<or> (\<forall>j. i + 1 \<le> j \<and> j < i + 1 + k' \<longrightarrow> reply_retry e j sid \<noteq> None)"
          by blast
        from s r1 have sr: "sid \<in> set refused"
          and b: "sid = p_si e \<or> reply_retry e i sid \<noteq> None" by auto
        have "sid = p_si e
              \<or> (\<forall>j. i \<le> j \<and> j < i + (k' + 1) \<longrightarrow> reply_retry e j sid \<noteq> None)"
          unfolding all_split using a b by blast
        with sr Suc show ?thesis by auto
      qed
    qed
    from c1 c2 c3 c4 c5 c6 show ?thesis by (intro exI [of _ "n + 1"] conjI)
  qed
qed

lemma count_failures_refused:
  "count_failures pairs ntid res refused cnt y = ((refused', cnt'), y') \<Longrightarrow>
     set refused' \<subseteq> set refused \<union> si ` set res"
proof (induction res arbitrary: refused cnt y)
  case Nil
  then show ?case by simp
next
  case (Cons r res)
  show ?case
  proof (cases "err r = None")
    case True
    with Cons.prems have "count_failures pairs ntid res refused cnt
        (if length pairs > 0 then syncDone (si r) pairs y else y) = ((refused', cnt'), y')"
      by simp
    from Cons.IH [OF this] show ?thesis by auto
  next
    case False
    show ?thesis
    proof (cases "IsErrConnectionRefused (err r) \<or> si r = ntid")
      case True
      have "count_failures pairs ntid res (List.insert (si r) refused) cnt y = ((refused', cnt'), y')"
        using Cons.prems True by (simp add: False)
      from Cons.IH [OF this] show ?thesis by auto
    next
      case nf: False
      have "count_failures pairs ntid res refused (cnt + 1) y = ((refused', cnt'), y')"
        using Cons.prems nf by (simp add: False)
      from Cons.IH [OF this] show ?thesis by auto
    qed
  qed
qed

lemma broadcast_not_self:
  assumes "broadcast e reply args y = (res, y')"
  shows "p_si e \<notin> si ` set res"
  unfolding broadcast_si [OF assms] by simp

lemma fold_vermap_other:
  "t \<notin> ptag ` set pairs \<Longrightarrow>
     fold (\<lambda>p vermap. vermap(ptag p \<mapsto> pver p)) pairs vm t = vm t"
  by (induction pairs arbitrary: vm) auto

lemma fold_vermap_in:
  "distinct (map ptag pairs) \<Longrightarrow> p \<in> set pairs \<Longrightarrow>
     fold (\<lambda>p vermap. vermap(ptag p \<mapsto> pver p)) pairs vm (ptag p) = Some (pver p)"
proof (induction pairs arbitrary: vm)
  case Nil
  then show ?case by simp
next
  case (Cons q pairs)
  let ?F = "\<lambda>p vermap. vermap(ptag p \<mapsto> pver p)"
  have step: "\<And>t. fold ?F (q # pairs) vm t = fold ?F pairs (vm(ptag q \<mapsto> pver q)) t"
    by (simp only: fold_simps)
  show ?case
  proof (cases "p = q")
    case True
    with Cons.prems have "ptag q \<notin> ptag ` set pairs" by auto
    then have "fold ?F pairs (vm(ptag q \<mapsto> pver q)) (ptag q) = (vm(ptag q \<mapsto> pver q)) (ptag q)"
      by (rule fold_vermap_other)
    also have "\<dots> = Some (pver q)" by simp
    finally show ?thesis unfolding True step .
  next
    case False
    with Cons.prems have "distinct (map ptag pairs)" "p \<in> set pairs" by auto
    then have "fold ?F pairs (vm(ptag q \<mapsto> pver q)) (ptag p) = Some (pver p)"
      by (rule Cons.IH)
    then show ?thesis unfolding step .
  qed
qed

lemma delivered_syncDone:
  "delivered (syncDone sid pairs y) s t =
     (if s = sid
      then fold (\<lambda>p vermap. vermap(ptag p \<mapsto> pver p)) pairs
             (case map_of (revsmap y) sid of Some vermap \<Rightarrow> vermap | None \<Rightarrow> Map.empty) t
      else delivered y s t)"
  by (simp add: delivered_def syncDone_def Let_def update_conv')

lemma has_all_syncDone_same:
  "distinct (map ptag pairs) \<Longrightarrow> has_all (syncDone sid pairs y) sid pairs"
  by (simp add: has_all_def delivered_syncDone fold_vermap_in)

lemma has_all_syncDone:
  "distinct (map ptag pairs) \<Longrightarrow> has_all y s pairs \<Longrightarrow> has_all (syncDone sid pairs y) s pairs"
  by (cases "s = sid") (simp_all add: has_all_syncDone_same, simp add: has_all_def delivered_syncDone)

lemma count_failures_has_all:
  assumes "distinct (map ptag pairs)" and "pairs \<noteq> []"
  shows "count_failures pairs ntid res refused cnt y = ((refused', cnt'), y') \<Longrightarrow>
     (\<forall>s. has_all y s pairs \<longrightarrow> has_all y' s pairs) \<and> cnt \<le> cnt' \<and> set refused \<subseteq> set refused'
     \<and> (cnt' = cnt \<longrightarrow> (\<forall>r \<in> set res. has_all y' (si r) pairs \<or> si r \<in> set refused'))"
proof (induction res arbitrary: refused cnt y)
  case Nil
  then show ?case by simp
next
  case (Cons r res)
  show ?case
  proof (cases "err r = None")
    case True
    have rec: "count_failures pairs ntid res refused cnt (syncDone (si r) pairs y)
                 = ((refused', cnt'), y')"
      using Cons.prems assms(2) by (simp add: True)
    note ih = Cons.IH [OF rec]
    have "has_all (syncDone (si r) pairs y) (si r) pairs"
      using assms(1) by (rule has_all_syncDone_same)
    with ih have "has_all y' (si r) pairs" by blast
    moreover have "\<forall>s. has_all y s pairs \<longrightarrow> has_all y' s pairs"
      using ih has_all_syncDone [OF assms(1)] by blast
    ultimately show ?thesis using ih by auto
  next
    case False
    show ?thesis
    proof (cases "IsErrConnectionRefused (err r) \<or> si r = ntid")
      case True
      have rec: "count_failures pairs ntid res (List.insert (si r) refused) cnt y
                   = ((refused', cnt'), y')"
        using Cons.prems True by (simp add: False)
      note ih = Cons.IH [OF rec]
      then have "si r \<in> set refused'" by auto
      with ih show ?thesis by auto
    next
      case nf: False
      have rec: "count_failures pairs ntid res refused (cnt + 1) y = ((refused', cnt'), y')"
        using Cons.prems nf by (simp add: False)
      note ih = Cons.IH [OF rec]
      then have "cnt' \<noteq> cnt" by auto
      with ih show ?thesis by auto
    qed
  qed
qed

lemma refused_results_has_all:
  assumes "distinct (map ptag pairs)"
  shows "refused_results pairs res refused y = (refused', y') \<Longrightarrow>
     (\<forall>s. has_all y s pairs \<longrightarrow> has_all y' s pairs)
     \<and> (\<forall>s \<in> set refused - set refused'. has_all y' s pairs)"
proof (induction res arbitrary: refused y)
  case Nil
  then show ?case by simp
next
  case (Cons r res)
  show ?case
  proof (cases "err r = None")
    case True
    have rec: "refused_results pairs res (removeAll (si r) refused) (syncDone (si r) pairs y)
                 = (refused', y')"
      using Cons.prems by (simp add: True)
    note ih = Cons.IH [OF rec]
    have "has_all (syncDone (si r) pairs y) (si r) pairs"
      using assms by (rule has_all_syncDone_same)
    with ih have a: "has_all y' (si r) pairs" by blast
    have b: "\<forall>s. has_all y s pairs \<longrightarrow> has_all y' s pairs"
      using ih has_all_syncDone [OF assms] by blast
    have "\<forall>s \<in> set refused - set refused'. has_all y' s pairs"
    proof
      fix s assume s: "s \<in> set refused - set refused'"
      show "has_all y' s pairs"
      proof (cases "s = si r")
        case True
        with a show ?thesis by simp
      next
        case False
        with s have "s \<in> set (removeAll (si r) refused) - set refused'" by simp
        with ih show ?thesis by blast
      qed
    qed
    with b show ?thesis by blast
  next
    case False
    have rec: "refused_results pairs res refused y = (refused', y')"
      using Cons.prems by (simp add: False)
    from Cons.IH [OF rec] show ?thesis .
  qed
qed

lemma handleRefused_has_all:
  assumes "distinct (map ptag pairs)"
      and "handleRefused e i m urlPath b refused pairs y = (refused', y')"
  shows "(\<forall>s. has_all y s pairs \<longrightarrow> has_all y' s pairs)
     \<and> (\<forall>s \<in> set refused - set refused'. has_all y' s pairs)"
proof -
  obtain res y1 where b: "broadcast e (reply_retry e i) (retry_bcast e m urlPath b refused) y = (res, y1)"
    by (cases "broadcast e (reply_retry e i) (retry_bcast e m urlPath b refused) y")
  with assms(2) have rr: "refused_results pairs res refused y1 = (refused', y')"
    by (simp add: handleRefused_def retry_bcast_def)
  from broadcast_effect [OF b] have "revsmap y1 = revsmap y" by simp
  then have "\<And>s. has_all y1 s pairs = has_all y s pairs"
    by (simp add: has_all_def delivered_def)
  with refused_results_has_all [OF assms(1) rr] show ?thesis by simp
qed

lemma has_all_trace_upd [simp]: "has_all (y\<lparr>trace := tr\<rparr>) s pairs = has_all y s pairs"
  by (simp add: has_all_def delivered_def)

lemma retry_refused_has_all:
  "distinct (map ptag pairs) \<Longrightarrow>
   retry_refused e i m urlPath b pairs refused y = (Some refused', y') \<Longrightarrow>
     (\<forall>s. has_all y s pairs \<longrightarrow> has_all y' s pairs)
     \<and> (\<forall>s \<in> set refused - set refused'. has_all y' s pairs)"
proof (induction e i m urlPath b pairs refused y arbitrary: refused' y' rule: retry_refused.induct)
  case (1 e i m urlPath b pairs refused y)
  let ?slept = "y\<lparr>trace := trace y @ [Sleep (CplaneOperation (Timeout (config e)))]\<rparr>"
  show ?case
  proof (cases "\<not> i < 10 \<or> length refused = 0")
    case True
    with "1.prems" have "refused' = refused" "y' = y"
      by (auto simp: retry_refused.simps)
    then show ?thesis by simp
  next
    case run: False
    have prim: "isPrimary (smap_retry e i) (p_si e)"
    proof (rule ccontr)
      assume "\<not> isPrimary (smap_retry e i) (p_si e)"
      with run "1.prems"(2) show False by (simp add: retry_refused.simps [of e i])
    qed
    obtain refused1 y1 where hr: "handleRefused e i m urlPath b refused pairs ?slept = (refused1, y1)"
      by (cases "handleRefused e i m urlPath b refused pairs ?slept")
    have fs: "fst (handleRefused e i m urlPath b refused pairs ?slept) = refused1"
             "snd (handleRefused e i m urlPath b refused pairs ?slept) = y1"
      using hr by simp_all
    have nn: "\<not> \<not> isPrimary (smap_retry e i) (p_si e)" using prim by simp
    have rec': "retry_refused e (i + 1) m urlPath b pairs
                  (fst (handleRefused e i m urlPath b refused pairs ?slept))
                  (snd (handleRefused e i m urlPath b refused pairs ?slept)) = (Some refused', y')"
      using "1.prems"(2) run prim by (simp add: retry_refused.simps [of e i])
    note ih = "1.IH" [OF run nn "1.prems"(1) rec', unfolded fs]
    note h1 = handleRefused_has_all [OF "1.prems"(1) hr]
    have a: "\<forall>s. has_all y s pairs \<longrightarrow> has_all y' s pairs"
      using ih h1 by simp
    have "\<forall>s \<in> set refused - set refused'. has_all y' s pairs"
    proof
      fix s assume s: "s \<in> set refused - set refused'"
      show "has_all y' s pairs"
      proof (cases "s \<in> set refused1")
        case True
        with s ih show ?thesis by blast
      next
        case False
        with s h1 have "has_all y1 s pairs" by blast
        with ih show ?thesis by blast
      qed
    qed
    with a show ?thesis by blast
  qed
qed

lemma map_of_filter_key:
  "map_of (filter (\<lambda>(k, v). P k) al) k = (if P k then map_of al k else None)"
  by (induction al) auto

lemma has_all_housekeep:
  "has_all y s pairs \<Longrightarrow> containsID smap s \<Longrightarrow> has_all (housekeep smap y) s pairs"
  by (simp add: has_all_def delivered_def housekeep_def map_of_filter_key)

lemma build_payload_effect:
  "build_payload e ps payload ntid y = (res, y') \<Longrightarrow>
     revsmap y' = revsmap y \<and> trace y' = trace y \<and> workCh y' = workCh y
     \<and> retryTimer y' = retryTimer y \<and> timerStopped y' = timerStopped y"
proof (induction ps arbitrary: payload ntid y)
  case Nil
  then show ?case by simp
next
  case (Cons p ps)
  show ?case
  proof (cases "pair_msgInt p")
    case None
    with Cons.prems show ?thesis by simp
  next
    case (Some msgInt)
    show ?thesis
    proof (cases "revs_marshal (pair_revs p)")
      case None
      with Some Cons.prems show ?thesis by (auto simp: Let_def)
    next
      case js: (Some jsbytes)
      with Some Cons.prems obtain pl nt where
        "build_payload e ps pl nt
           (y\<lparr>last_synced := AList.update (ptag p) (pair_revs p) (last_synced y),
              lastclone := (lastclone y)(ptag p \<mapsto> jsbytes)\<rparr>) = (res, y')"
        by (simp add: Let_def)
      from Cons.IH [OF this] show ?thesis by simp
    qed
  qed
qed

lemma bcast_steps_cases:
  assumes "bcast_steps e smap m b pairs ntid y = (Inr n, y')"
  obtains (bailed) res y1 refused y2 where
      "broadcastTo e (reply0 e) (metasync_path e) m b smap
         (CplaneOperation (Timeout (config e)) * 2) NetworkIntraControl AllNodes y = (res, y1)"
      "count_failures pairs ntid res [] 0 y1 = ((refused, n), y2)"
      "retry_refused e 0 m (metasync_path e) b pairs refused y2 = (None, y')"
  | (completed) res y1 refused cnt y2 refused' y3 where
      "broadcastTo e (reply0 e) (metasync_path e) m b smap
         (CplaneOperation (Timeout (config e)) * 2) NetworkIntraControl AllNodes y = (res, y1)"
      "count_failures pairs ntid res [] 0 y1 = ((refused, cnt), y2)"
      "retry_refused e 0 m (metasync_path e) b pairs refused y2 = (Some refused', y3)"
      "n = cnt + length refused'" "y' = housekeep (smap_end e) y3"
proof -
  obtain res y1 where bc: "broadcastTo e (reply0 e) (metasync_path e) m b smap
         (CplaneOperation (Timeout (config e)) * 2) NetworkIntraControl AllNodes y = (res, y1)"
    by (cases "broadcastTo e (reply0 e) (metasync_path e) m b smap
         (CplaneOperation (Timeout (config e)) * 2) NetworkIntraControl AllNodes y")
  obtain refused cnt y2 where cf: "count_failures pairs ntid res [] 0 y1 = ((refused, cnt), y2)"
    by (cases "count_failures pairs ntid res [] 0 y1") auto
  obtain r y3 where rr: "retry_refused e 0 m (metasync_path e) b pairs refused y2 = (r, y3)"
    by (cases "retry_refused e 0 m (metasync_path e) b pairs refused y2")
  show thesis
  proof (cases r)
    case None
    with assms bc cf rr have "n = cnt" "y' = y3" by (simp_all add: bcast_steps_def)
    with bc cf rr None show thesis by (intro bailed) simp_all
  next
    case (Some refused')
    with assms bc cf rr have "n = cnt + length refused'" "y' = housekeep (smap_end e) y3"
      by (simp_all add: bcast_steps_def)
    with bc cf rr Some show thesis by (intro completed) simp_all
  qed
qed

lemma doSync_sent_cases:
  assumes ds: "doSync e pairs msgInt y = (Inr n, y')"
      and fp: "filter_pairs (smap0 e) y (countNewMembers y (smap0 e)) pairs = Inr toSend"
      and ne: "toSend \<noteq> []"
  obtains payload ntid y1 where
      "build_payload e toSend [] '''' y = (Inr (payload, ntid), y1)"
      "bcast_steps e (smap0 e) MethodPut (PayloadBody payload) toSend ntid y1 = (Inr n, y')"
proof -
  have pne: "pairs \<noteq> []" using fp ne by (cases pairs) auto
  obtain r y1 where bp: "build_payload e toSend [] '''' y = (r, y1)"
    by (cases "build_payload e toSend [] '''' y")
  have ca: "cow_audit (lastclone y) (last_synced y) = None"
    using ds by (cases "cow_audit (lastclone y) (last_synced y)") (simp_all add: doSync_def Let_def)
  have mi: "msgInt = None"
    using ds ca pne by (cases msgInt) (simp_all add: doSync_def Let_def)
  show thesis
  proof (cases r)
    case (Inl f)
    with ds ca mi pne fp ne bp show thesis by (simp add: doSync_def Let_def)
  next
    case (Inr pn)
    obtain payload ntid where pn: "pn = (payload, ntid)" by (cases pn)
    with Inr ds ca mi pne fp ne bp
    have "bcast_steps e (smap0 e) MethodPut (PayloadBody payload) toSend ntid y1 = (Inr n, y')"
      by (simp add: doSync_def Let_def)
    with bp Inr pn show thesis by (intro that) simp_all
  qed
qed

lemma filter_pairs_newer:
  "p \<in> set pairs \<Longrightarrow> ptag p = smaptag \<Longrightarrow> pver p > Version smap \<Longrightarrow>
     \<exists>f. filter_pairs smap y newCnt pairs = Inl f"
proof (induction pairs)
  case Nil
  then show ?case by simp
next
  case (Cons q pairs)
  show ?case
  proof (cases "p = q")
    case True
    with Cons.prems show ?thesis by (cases "pair_msgInt q") simp_all
  next
    case False
    with Cons obtain f where "filter_pairs smap y newCnt pairs = Inl f" by auto
    then show ?thesis by (cases "pair_msgInt q") simp_all
  qed
qed

lemma filter_pairs_subset:
  "filter_pairs smap y newCnt pairs = Inr toSend \<Longrightarrow> set toSend \<subseteq> set pairs"
proof (induction pairs arbitrary: toSend)
  case Nil
  then show ?case by simp
next
  case (Cons q pairs)
  from Cons.prems obtain ts where ts: "filter_pairs smap y newCnt pairs = Inr ts"
    and "toSend = ts \<or> toSend = q # ts"
    by (cases "pair_msgInt q"; cases "filter_pairs smap y newCnt pairs")
       (auto split: if_splits)
  with Cons.IH [OF ts] show ?case by auto
qed

lemma filter_pairs_keeps:
  "filter_pairs smap y newCnt pairs = Inr toSend \<Longrightarrow> p \<in> set pairs \<Longrightarrow>
   lversion y (ptag p) < pver p \<or> (lversion y (ptag p) = pver p \<and> newCnt \<noteq> 0) \<Longrightarrow>
     p \<in> set toSend"
proof (induction pairs arbitrary: toSend)
  case Nil
  then show ?case by simp
next
  case (Cons q pairs)
  from Cons.prems(1) obtain ts where ts: "filter_pairs smap y newCnt pairs = Inr ts"
    and alt: "toSend = ts \<or> toSend = q # ts"
    by (cases "pair_msgInt q"; cases "filter_pairs smap y newCnt pairs")
       (auto split: if_splits)
  show ?case
  proof (cases "p = q")
    case True
    with Cons.prems(1,3) ts have "toSend = q # ts"
      by (cases "pair_msgInt q") (auto split: if_splits)
    with True show ?thesis by simp
  next
    case False
    with Cons.prems have "p \<in> set pairs" by simp
    from Cons.IH [OF ts this Cons.prems(3)] alt show ?thesis by auto
  qed
qed

lemma action_key_not_smaptag: "t @ actiontag \<noteq> smaptag"
proof
  assume "t @ actiontag = smaptag"
  then have "last (t @ actiontag) = last smaptag" by simp
  then show False by (simp add: actiontag_def smaptag_def)
qed

lemma build_payload_untouched:
  "build_payload e ps payload ntid y = (Inr (payload', ntid'), y') \<Longrightarrow>
   \<forall>q \<in> set ps. ptag q \<noteq> t \<and> ptag q @ actiontag \<noteq> t \<Longrightarrow>
     map_of payload' t = map_of payload t \<and> map_of (last_synced y') t = map_of (last_synced y) t"
proof (induction ps arbitrary: payload ntid y)
  case Nil
  then show ?case by simp
next
  case (Cons q ps)
  from Cons.prems(1) obtain msgInt where m: "pair_msgInt q = Some msgInt"
    by (cases "pair_msgInt q") simp_all
  from Cons.prems(1) m obtain js where js: "revs_marshal (pair_revs q) = Some js"
    by (cases "revs_marshal (pair_revs q)") (simp_all add: Let_def)
  let ?pl = "AList.update (ptag q @ actiontag) (ActionJSON msgInt)
               (AList.update (ptag q) (RevsJSON js) payload)"
  let ?y1 = "y\<lparr>last_synced := AList.update (ptag q) (pair_revs q) (last_synced y),
               lastclone := (lastclone y)(ptag q \<mapsto> js)\<rparr>"
  from Cons.prems(1) m js obtain nt where
    rec: "build_payload e ps ?pl nt ?y1 = (Inr (payload', ntid'), y')"
    by (simp add: Let_def)
  from Cons.prems(2) have rest: "\<forall>q \<in> set ps. ptag q \<noteq> t \<and> ptag q @ actiontag \<noteq> t"
    and q: "ptag q \<noteq> t" "ptag q @ actiontag \<noteq> t" by simp_all
  from Cons.IH [OF rec rest] q show ?case by (simp add: update_conv')
qed

lemma build_payload_tag:
  "build_payload e ps payload ntid y = (Inr (payload', ntid'), y') \<Longrightarrow> p \<in> set ps \<Longrightarrow>
   \<forall>q \<in> set ps. ptag q = ptag p \<longrightarrow> q = p \<Longrightarrow>
   \<forall>q \<in> set ps. ptag q @ actiontag \<noteq> ptag p \<Longrightarrow>
     \<exists>js. revs_marshal (pair_revs p) = Some js
          \<and> map_of payload' (ptag p) = Some (RevsJSON js)
          \<and> map_of (last_synced y') (ptag p) = Some (pair_revs p)"
proof (induction ps arbitrary: payload ntid y)
  case Nil
  then show ?case by simp
next
  case (Cons q ps)
  from Cons.prems(1) obtain msgInt where m: "pair_msgInt q = Some msgInt"
    by (cases "pair_msgInt q") simp_all
  from Cons.prems(1) m obtain js where js: "revs_marshal (pair_revs q) = Some js"
    by (cases "revs_marshal (pair_revs q)") (simp_all add: Let_def)
  let ?pl = "AList.update (ptag q @ actiontag) (ActionJSON msgInt)
               (AList.update (ptag q) (RevsJSON js) payload)"
  let ?y1 = "y\<lparr>last_synced := AList.update (ptag q) (pair_revs q) (last_synced y),
               lastclone := (lastclone y)(ptag q \<mapsto> js)\<rparr>"
  from Cons.prems(1) m js obtain nt where
    rec: "build_payload e ps ?pl nt ?y1 = (Inr (payload', ntid'), y')"
    by (simp add: Let_def)
  from Cons.prems(3) have only: "\<forall>q \<in> set ps. ptag q = ptag p \<longrightarrow> q = p" by simp
  from Cons.prems(4) have noact: "\<forall>q \<in> set ps. ptag q @ actiontag \<noteq> ptag p"
    and qa: "ptag q @ actiontag \<noteq> ptag p" by simp_all
  show ?case
  proof (cases "p \<in> set ps")
    case True
    from Cons.IH [OF rec True only noact] show ?thesis .
  next
    case False
    with Cons.prems(2) have pq: "p = q" by simp
    from False only have "\<forall>q \<in> set ps. ptag q \<noteq> ptag p" by auto
    with noact have "\<forall>q \<in> set ps. ptag q \<noteq> ptag p \<and> ptag q @ actiontag \<noteq> ptag p" by simp
    from build_payload_untouched [OF rec this]
    have "map_of payload' (ptag p) = map_of ?pl (ptag p)"
      and "map_of (last_synced y') (ptag p) = map_of (last_synced ?y1) (ptag p)" by simp_all
    with pq qa js show ?thesis by (simp add: update_conv')
  qed
qed

lemma writes_from_Nil [simp]: "writes_from pairs []"
  by (simp add: writes_from_def)

lemma writes_from_append [simp]:
  "writes_from pairs (a @ b) = (writes_from pairs a \<and> writes_from pairs b)"
  by (auto simp: writes_from_def)

lemma writes_from_deliveries: "deliveries S pairs evs \<Longrightarrow> writes_from pairs evs"
  by (fastforce simp: deliveries_def writes_from_def)

lemma writes_from_retry:
  "\<forall>ev \<in> set evs. retry_event e m urlPath b refused pairs ev \<Longrightarrow> writes_from pairs evs"
  by (fastforce simp: retry_event_def writes_from_def)

lemma broadcastTo_all:
  assumes "broadcastTo e reply urlPath m b smap tmo net AllNodes y = (res, y1)"
  shows "y1 = y\<lparr>trace := trace y @ [Bcast \<lparr>req = \<lparr>httpMethod = m, path = urlPath, body = b\<rparr>,
                                           network = net, timeout = tmo,
                                           nodes = [Pmap smap, Tmap smap]\<rparr>]\<rparr>"
  using broadcast_effect [OF assms [unfolded broadcastTo_def]] by simp

lemma bcast_steps_effect:
  assumes "bcast_steps e smap m b pairs ntid y = (Inr n, y')"
  shows "last_synced y' = last_synced y \<and> lastclone y' = lastclone y
       \<and> retryTimer y' = retryTimer y \<and> timerStopped y' = timerStopped y
       \<and> (\<exists>evs. trace y' = trace y @ Bcast (first_bcast e smap m b) # evs
                \<and> writes_from pairs evs)"
  using assms
proof (cases rule: bcast_steps_cases)
  case (bailed res y1 refused y2)
  have y1: "y1 = y\<lparr>trace := trace y @ [Bcast (first_bcast e smap m b)]\<rparr>"
    using broadcastTo_all [OF bailed(1)] by (simp add: first_bcast_def)
  from count_failures_effect [OF bailed(2)] obtain evs1 where
    f1: "frame y1 y2" and t1: "trace y2 = trace y1 @ evs1"
    and d1: "deliveries (si ` set res) pairs evs1" by blast
  note eff = retry_refused_effect [OF bailed(3)]
  from eff [THEN conjunct1] obtain evs2 where
    t2: "trace y' = trace y2 @ evs2"
    and e2: "\<forall>ev \<in> set evs2. retry_event e m (metasync_path e) b refused pairs ev"
    by (elim exE conjE)
  from eff [THEN conjunct2] have f2: "frame (becomeNonPrimary y2) y'" by simp
  have "trace y' = trace y @ Bcast (first_bcast e smap m b) # (evs1 @ evs2)"
    using t1 t2 by (simp add: y1)
  moreover have "writes_from pairs (evs1 @ evs2)"
    using writes_from_deliveries [OF d1] writes_from_retry [OF e2] by simp
  ultimately have "\<exists>evs. trace y' = trace y @ Bcast (first_bcast e smap m b) # evs
                \<and> writes_from pairs evs" by blast
  then show ?thesis using f1 f2 by (simp add: y1 frame_def becomeNonPrimary_def)
next
  case (completed res y1 refused cnt y2 refused' y3)
  have y1: "y1 = y\<lparr>trace := trace y @ [Bcast (first_bcast e smap m b)]\<rparr>"
    using broadcastTo_all [OF completed(1)] by (simp add: first_bcast_def)
  from count_failures_effect [OF completed(2)] obtain evs1 where
    f1: "frame y1 y2" and t1: "trace y2 = trace y1 @ evs1"
    and d1: "deliveries (si ` set res) pairs evs1" by blast
  note eff = retry_refused_effect [OF completed(3)]
  from eff [THEN conjunct1] obtain evs2 where
    t2: "trace y3 = trace y2 @ evs2"
    and e2: "\<forall>ev \<in> set evs2. retry_event e m (metasync_path e) b refused pairs ev"
    by (elim exE conjE)
  from eff [THEN conjunct2] have f2: "frame y2 y3" by simp
  have "trace y' = trace y @ Bcast (first_bcast e smap m b) # (evs1 @ evs2)"
    using t1 t2 by (simp add: y1 completed(5) housekeep_def)
  moreover have "writes_from pairs (evs1 @ evs2)"
    using writes_from_deliveries [OF d1] writes_from_retry [OF e2] by simp
  ultimately have "\<exists>evs. trace y' = trace y @ Bcast (first_bcast e smap m b) # evs
                \<and> writes_from pairs evs" by blast
  then show ?thesis using f1 f2 by (simp add: y1 frame_def completed(5) housekeep_def)
qed

lemma doSync_filter_ok:
  assumes "doSync e pairs msgInt y = (Inr n, y')" and "pairs \<noteq> []"
  obtains toSend where "filter_pairs (smap0 e) y (countNewMembers y (smap0 e)) pairs = Inr toSend"
proof -
  have ca: "cow_audit (lastclone y) (last_synced y) = None"
    using assms(1) by (cases "cow_audit (lastclone y) (last_synced y)") (simp_all add: doSync_def Let_def)
  have mi: "msgInt = None"
    using assms ca by (cases msgInt) (simp_all add: doSync_def Let_def)
  show thesis
  proof (cases "filter_pairs (smap0 e) y (countNewMembers y (smap0 e)) pairs")
    case (Inl f)
    with assms ca mi show thesis by (simp add: doSync_def Let_def)
  next
    case (Inr toSend)
    then show thesis by (rule that)
  qed
qed

lemma doSync_newer_smap_aborts:
  assumes "p \<in> set pairs" "ptag p = smaptag" "pver p > Version (smap0 e)"
  shows "\<exists>f. doSync e pairs msgInt y = (Inl f, y)"
proof (cases "cow_audit (lastclone y) (last_synced y)")
  case (Some f)
  then show ?thesis by (simp add: doSync_def Let_def)
next
  case None
  from assms(1) have ne: "pairs \<noteq> []" by auto
  show ?thesis
  proof (cases msgInt)
    case (Some a)
    with None ne show ?thesis by (simp add: doSync_def Let_def)
  next
    case mi: None
    from filter_pairs_newer [OF assms] obtain f where
      "filter_pairs (smap0 e) y (countNewMembers y (smap0 e)) pairs = Inl f" by blast
    with None mi ne show ?thesis by (simp add: doSync_def Let_def)
  qed
qed

lemmas pending_eval = handlePending_def pending_def newActionMsgInternalStr_def

lemmas run_eval = Run_work_def Run_timer_def sync_def checkPrimary_def isNil_def

lemma refused_results_exact:
  "refused_results pairs res refused y = (refused', y') \<Longrightarrow>
     refused' = filter (\<lambda>sid. sid \<notin> si ` set (filter (\<lambda>r. err r = None) res)) refused
     \<and> trace y' = trace y @ concat (map (\<lambda>r. map (\<lambda>p. Delivered (si r) (ptag p) (pver p)) pairs)
                                        (filter (\<lambda>r. err r = None) res))"
proof (induction res arbitrary: refused y)
  case Nil
  then show ?case by simp
next
  case (Cons r res)
  show ?case
  proof (cases "err r = None")
    case True
    with Cons.prems have
      "refused_results pairs res (removeAll (si r) refused) (syncDone (si r) pairs y) = (refused', y')"
      by simp
    from Cons.IH [OF this] have
        a: "refused' = filter (\<lambda>sid. sid \<notin> si ` set (filter (\<lambda>r. err r = None) res))
                         (removeAll (si r) refused)"
      and t: "trace y' = trace (syncDone (si r) pairs y)
                @ concat (map (\<lambda>r. map (\<lambda>p. Delivered (si r) (ptag p) (pver p)) pairs)
                              (filter (\<lambda>r. err r = None) res))"
      by simp_all
    have "refused' = filter (\<lambda>sid. sid \<notin> si ` set (filter (\<lambda>r. err r = None) (r # res))) refused"
      unfolding a removeAll_filter_not_eq filter_filter using True
      by (intro filter_cong refl) auto
    moreover have "trace y' = trace y
        @ concat (map (\<lambda>r. map (\<lambda>p. Delivered (si r) (ptag p) (pver p)) pairs)
                      (filter (\<lambda>r. err r = None) (r # res)))"
      unfolding t using True by simp
    ultimately show ?thesis by (rule conjI)
  next
    case False
    with Cons.prems have "refused_results pairs res refused y = (refused', y')"
      by (simp add: False)
    from Cons.IH [OF this] show ?thesis using False by (simp add: False)
  qed
qed

lemma retry_results_ok_list:
  "map si (filter (\<lambda>r. err r = None)
        (map (\<lambda>sid. \<lparr>si = sid, err = reply sid\<rparr>) (filter (\<lambda>sid. sid \<noteq> self) xs)))
     = filter (\<lambda>sid. sid \<noteq> self \<and> reply sid = None) xs"
  by (induction xs) simp_all

lemma handleRefused_exact:
  assumes "handleRefused e i m urlPath b refused pairs y = (refused', y')"
  shows "refused' = still_refused e i refused
       \<and> trace y' = trace y @ Bcast (retry_bcast e m urlPath b refused)
                               # retry_deliveries e i pairs refused"
proof -
  obtain res y1 where b: "broadcast e (reply_retry e i) (retry_bcast e m urlPath b refused) y = (res, y1)"
    by (cases "broadcast e (reply_retry e i) (retry_bcast e m urlPath b refused) y")
  with assms have rr: "refused_results pairs res refused y1 = (refused', y')"
    by (simp add: handleRefused_def retry_bcast_def)
  from broadcast_effect [OF b] have
      y1: "trace y1 = trace y @ [Bcast (retry_bcast e m urlPath b refused)]"
    and res: "res = map (\<lambda>sid. \<lparr>si = sid, err = reply_retry e i sid\<rparr>)
                      (filter (\<lambda>sid. sid \<noteq> p_si e) refused)"
    by (simp_all add: retry_bcast_def)
  have ok: "map si (filter (\<lambda>r. err r = None) res)
              = filter (\<lambda>sid. sid \<noteq> p_si e \<and> reply_retry e i sid = None) refused"
    unfolding res by (rule retry_results_ok_list)
  have oks: "si ` set (filter (\<lambda>r. err r = None) res)
              = {sid \<in> set refused. sid \<noteq> p_si e \<and> reply_retry e i sid = None}"
    unfolding set_map [symmetric] ok by simp
  from refused_results_exact [OF rr] have
      a: "refused' = filter (\<lambda>sid. sid \<notin> si ` set (filter (\<lambda>r. err r = None) res)) refused"
    and t: "trace y' = trace y1
              @ concat (map (\<lambda>r. map (\<lambda>p. Delivered (si r) (ptag p) (pver p)) pairs)
                            (filter (\<lambda>r. err r = None) res))"
    by simp_all
  have c: "concat (map (\<lambda>r. map (\<lambda>p. Delivered (si r) (ptag p) (pver p)) pairs)
                            (filter (\<lambda>r. err r = None) res))
           = concat (map (\<lambda>sid. map (\<lambda>p. Delivered sid (ptag p) (pver p)) pairs)
                         (map si (filter (\<lambda>r. err r = None) res)))"
    by (simp add: comp_def)
  have "refused' = still_refused e i refused"
    unfolding a oks still_refused_def by (intro filter_cong refl) auto
  moreover have "trace y' = trace y @ Bcast (retry_bcast e m urlPath b refused)
                               # retry_deliveries e i pairs refused"
    unfolding t c ok y1 retry_deliveries_def by simp
  ultimately show ?thesis by (rule conjI)
qed

lemma refused_from_shift:
  "refused_from e i refused (Suc k) = refused_from e (Suc i) (still_refused e i refused) k"
  by (induction k) simp_all

lemma retry_trace_shift:
  "retry_trace e m urlPath b pairs i refused (Suc n)
     = round_events e m urlPath b pairs i refused 0
       @ retry_trace e m urlPath b pairs (Suc i) (still_refused e i refused) n"
proof -
  have r: "\<And>k. round_events e m urlPath b pairs i refused (Suc k)
             = round_events e m urlPath b pairs (Suc i) (still_refused e i refused) k"
    unfolding round_events_def refused_from_shift by simp
  have "[0..<Suc n] = 0 # map Suc [0..<n]"
    by (simp add: upt_conv_Cons map_Suc_upt del: upt_Suc)
  then show ?thesis
    unfolding retry_trace_def by (simp add: comp_def r del: upt_Suc)
qed

lemma retry_refused_exact:
  "retry_refused e i m urlPath b pairs refused y = (r, y') \<Longrightarrow>
     \<exists>n. i + n \<le> max i 10
        \<and> (\<forall>k<n. refused_from e i refused k \<noteq> [] \<and> isPrimary (smap_retry e (i + k)) (p_si e))
        \<and> (case r of
              Some refused' \<Rightarrow>
                refused' = refused_from e i refused n
                \<and> (i + n < 10 \<longrightarrow> refused' = [])
                \<and> trace y' = trace y @ retry_trace e m urlPath b pairs i refused n
            | None \<Rightarrow>
                i + n < 10 \<and> refused_from e i refused n \<noteq> []
                \<and> \<not> isPrimary (smap_retry e (i + n)) (p_si e)
                \<and> trace y' = trace y @ retry_trace e m urlPath b pairs i refused n
                               @ [Sleep (CplaneOperation (Timeout (config e)))])"
proof (induction e i m urlPath b pairs refused y arbitrary: r y' rule: retry_refused.induct)
  case (1 e i m urlPath b pairs refused y)
  let ?d = "Sleep (CplaneOperation (Timeout (config e)))"
  let ?slept = "y\<lparr>trace := trace y @ [?d]\<rparr>"
  show ?case
  proof (cases "\<not> i < 10 \<or> length refused = 0")
    case True
    with "1.prems" have "r = Some refused" "y' = y"
      by (auto simp: retry_refused.simps)
    with True show ?thesis
      by (intro exI [of _ 0]) (auto simp: retry_trace_def)
  next
    case run: False
    have i10: "i < 10" and rne: "refused \<noteq> []" using run by simp_all
    show ?thesis
    proof (cases "isPrimary (smap_retry e i) (p_si e)")
      case False
      with run "1.prems" have r: "r = None" and y': "y' = becomeNonPrimary ?slept"
        by (auto simp: retry_refused.simps)
      have "trace y' = trace y @ retry_trace e m urlPath b pairs i refused 0 @ [?d]"
        by (simp add: y' becomeNonPrimary_def retry_trace_def)
      with False i10 rne r show ?thesis
        by (intro exI [of _ 0]) simp
    next
      case prim: True
      obtain refused1 y1 where hr: "handleRefused e i m urlPath b refused pairs ?slept = (refused1, y1)"
        by (cases "handleRefused e i m urlPath b refused pairs ?slept")
      have fs: "fst (handleRefused e i m urlPath b refused pairs ?slept) = refused1"
               "snd (handleRefused e i m urlPath b refused pairs ?slept) = y1"
        using hr by simp_all
      have nn: "\<not> \<not> isPrimary (smap_retry e i) (p_si e)" using prim by simp
      have rec': "retry_refused e (i + 1) m urlPath b pairs
                    (fst (handleRefused e i m urlPath b refused pairs ?slept))
                    (snd (handleRefused e i m urlPath b refused pairs ?slept)) = (r, y')"
        using "1.prems" run prim by (simp add: retry_refused.simps [of e i])
      from handleRefused_exact [OF hr] have
          r1: "refused1 = still_refused e i refused"
        and t1: "trace y1 = trace y @ round_events e m urlPath b pairs i refused 0"
        by (simp_all add: round_events_def)
      from "1.IH" [OF run nn rec', unfolded fs] obtain n where
          n1: "i + 1 + n \<le> max (i + 1) 10"
        and n2: "\<forall>k<n. refused_from e (i + 1) refused1 k \<noteq> []
                        \<and> isPrimary (smap_retry e (i + 1 + k)) (p_si e)"
        and n3: "case r of
              Some refused' \<Rightarrow>
                refused' = refused_from e (i + 1) refused1 n
                \<and> (i + 1 + n < 10 \<longrightarrow> refused' = [])
                \<and> trace y' = trace y1 @ retry_trace e m urlPath b pairs (i + 1) refused1 n
            | None \<Rightarrow>
                i + 1 + n < 10 \<and> refused_from e (i + 1) refused1 n \<noteq> []
                \<and> \<not> isPrimary (smap_retry e (i + 1 + n)) (p_si e)
                \<and> trace y' = trace y1 @ retry_trace e m urlPath b pairs (i + 1) refused1 n @ [?d]"
        by (elim exE conjE)
      have sh: "\<And>k. refused_from e (i + 1) refused1 k = refused_from e i refused (Suc k)"
        unfolding r1 by (simp add: refused_from_shift del: refused_from.simps)
      have tr: "round_events e m urlPath b pairs i refused 0
                  @ retry_trace e m urlPath b pairs (i + 1) refused1 n
                = retry_trace e m urlPath b pairs i refused (Suc n)"
        unfolding r1 by (simp add: retry_trace_shift)
      have c1: "i + Suc n \<le> max i 10" using n1 i10 by simp
      have c2: "\<forall>k<Suc n. refused_from e i refused k \<noteq> []
                   \<and> isPrimary (smap_retry e (i + k)) (p_si e)"
      proof (intro allI impI)
        fix k assume k: "k < Suc n"
        show "refused_from e i refused k \<noteq> [] \<and> isPrimary (smap_retry e (i + k)) (p_si e)"
        proof (cases k)
          case 0
          then show ?thesis using rne prim by simp
        next
          case (Suc k')
          with k have "k' < n" by simp
          with n2 have "refused_from e (i + 1) refused1 k' \<noteq> []
                        \<and> isPrimary (smap_retry e (i + 1 + k')) (p_si e)" by simp
          then show ?thesis unfolding sh Suc by simp
        qed
      qed
      have c3: "case r of
              Some refused' \<Rightarrow>
                refused' = refused_from e i refused (Suc n)
                \<and> (i + Suc n < 10 \<longrightarrow> refused' = [])
                \<and> trace y' = trace y @ retry_trace e m urlPath b pairs i refused (Suc n)
            | None \<Rightarrow>
                i + Suc n < 10 \<and> refused_from e i refused (Suc n) \<noteq> []
                \<and> \<not> isPrimary (smap_retry e (i + Suc n)) (p_si e)
                \<and> trace y' = trace y @ retry_trace e m urlPath b pairs i refused (Suc n) @ [?d]"
      proof (cases r)
        case None
        from n3 [unfolded None option.case sh t1] show ?thesis
          unfolding None option.case tr [symmetric] by simp
      next
        case (Some refused')
        note abc = n3 [unfolded Some option.case sh t1]
        note a = abc [THEN conjunct1]
        note b = abc [THEN conjunct2, THEN conjunct1]
        note c = abc [THEN conjunct2, THEN conjunct2]
        have b': "i + Suc n < 10 \<longrightarrow> refused' = []" using b by simp
        have c': "trace y' = trace y @ retry_trace e m urlPath b pairs i refused (Suc n)"
          unfolding c tr [symmetric] by simp
        show ?thesis unfolding Some option.case using a b' c' by (intro conjI)
      qed
      from c1 c2 c3 show ?thesis by (intro exI [of _ "Suc n"] conjI)
    qed
  qed
qed

lemma retry_deliveries_no_Sleep [simp]:
  "filter is_Sleep (retry_deliveries e i pairs refused) = []"
  unfolding retry_deliveries_def by (induction refused) (simp_all add: filter_empty_conv)

lemma retry_deliveries_no_Bcast [simp]:
  "filter is_Bcast (retry_deliveries e i pairs refused) = []"
  unfolding retry_deliveries_def by (induction refused) (simp_all add: filter_empty_conv)

lemma retry_trace_Suc:
  "retry_trace e m urlPath b pairs i refused (Suc n)
     = retry_trace e m urlPath b pairs i refused n @ round_events e m urlPath b pairs i refused n"
  by (simp add: retry_trace_def)

lemma retry_trace_sleeps [simp]:
  "length (filter is_Sleep (retry_trace e m urlPath b pairs i refused n)) = n"
proof (induction n)
  case 0
  show ?case by (simp add: retry_trace_def)
next
  case (Suc n)
  then show ?case unfolding retry_trace_Suc by (simp add: round_events_def)
qed

lemma retry_trace_bcasts [simp]:
  "length (filter is_Bcast (retry_trace e m urlPath b pairs i refused n)) = n"
proof (induction n)
  case 0
  show ?case by (simp add: retry_trace_def)
next
  case (Suc n)
  then show ?case unfolding retry_trace_Suc by (simp add: round_events_def)
qed
section \<open>What the operations keep true\<close>

lemma delivered_versions_append [simp]:
  "delivered_versions sid tag (a @ b) = delivered_versions sid tag a @ delivered_versions sid tag b"
  by (induction a rule: delivered_versions.induct) simp_all

lemma delivered_versions_set:
  "v \<in> set (delivered_versions sid tag evs) \<Longrightarrow> Delivered sid tag v \<in> set evs"
  by (induction evs rule: delivered_versions.induct) (auto split: if_splits)

lemma sorted_all_equal: "\<forall>v \<in> set xs. v = (c::int) \<Longrightarrow> sorted xs"
  by (induction xs) auto

lemma writes_extend:
  assumes s: "sorted (delivered_versions sid tag tr)"
      and b: "\<forall>v \<in> set (delivered_versions sid tag tr). v \<le> L0"
      and le: "L0 \<le> L"
      and w: "\<forall>v. Delivered sid tag v \<in> set evs \<longrightarrow> v = L"
  shows "sorted (delivered_versions sid tag (tr @ evs))
       \<and> (\<forall>v \<in> set (delivered_versions sid tag (tr @ evs)). v \<le> L)"
proof -
  have eq: "\<forall>v \<in> set (delivered_versions sid tag evs). v = L"
    using w delivered_versions_set by blast
  then have "sorted (delivered_versions sid tag evs)" by (rule sorted_all_equal)
  moreover have "\<forall>x \<in> set (delivered_versions sid tag tr).
                   \<forall>z \<in> set (delivered_versions sid tag evs). x \<le> z"
    using b le eq by fastforce
  ultimately have "sorted (delivered_versions sid tag (tr @ evs))"
    using s by (simp add: sorted_append)
  moreover have "\<forall>v \<in> set (delivered_versions sid tag (tr @ evs)). v \<le> L"
    using b le eq by fastforce
  ultimately show ?thesis by simp
qed

lemma mono_writes_extend:
  assumes mw: "mono_writes y"
      and tr: "trace y' = trace y @ evs"
      and le: "\<forall>t. lversion y t \<le> lversion y' t"
      and w: "\<forall>s t v. Delivered s t v \<in> set evs \<longrightarrow> v = lversion y' t"
  shows "mono_writes y'"
  unfolding mono_writes_def
proof (intro allI)
  fix sid tag
  have s: "sorted (delivered_versions sid tag (trace y))"
    and b: "\<forall>v \<in> set (delivered_versions sid tag (trace y)). v \<le> lversion y tag"
    using mw by (simp_all add: mono_writes_def)
  have l: "lversion y tag \<le> lversion y' tag" using le by simp
  have w': "\<forall>v. Delivered sid tag v \<in> set evs \<longrightarrow> v = lversion y' tag" using w by simp
  show "sorted (delivered_versions sid tag (trace y'))
        \<and> (\<forall>v \<in> set (delivered_versions sid tag (trace y')). v \<le> lversion y' tag)"
    unfolding tr by (rule writes_extend [OF s b l w'])
qed

lemma update_entries:
  "(t, r) \<in> set (AList.update k v al) \<Longrightarrow> (t, r) = (k, v) \<or> (t, r) \<in> set al"
  by (induction al) (auto split: if_splits)

lemma published_ok_update:
  "published_ok y \<Longrightarrow>
     published_ok (y\<lparr>last_synced := AList.update (revs_tag r) r (last_synced y)\<rparr>)"
  unfolding published_ok_def
  by (auto simp: distinct_update dest!: update_entries)

lemma lversion_update:
  "lversion (y\<lparr>last_synced := AList.update k r (last_synced y)\<rparr>) t
     = (if t = k then revs_version r else lversion y t)"
  by (simp add: lversion_def update_conv')

lemma lversion_lastclone_upd [simp]: "lversion (y\<lparr>lastclone := c\<rparr>) t = lversion y t"
  by (simp add: lversion_def)

lemma published_ok_lastclone_upd [simp]: "published_ok (y\<lparr>lastclone := c\<rparr>) = published_ok y"
  by (simp add: published_ok_def)

lemma build_payload_last_other:
  "build_payload e ps payload ntid y = (r, y') \<Longrightarrow> t \<notin> ptag ` set ps \<Longrightarrow>
     map_of (last_synced y') t = map_of (last_synced y) t"
proof (induction ps arbitrary: payload ntid y)
  case Nil
  then show ?case by simp
next
  case (Cons q ps)
  let ?y0 = "y\<lparr>last_synced := AList.update (ptag q) (pair_revs q) (last_synced y)\<rparr>"
  from Cons.prems(2) have tq: "t \<noteq> ptag q" and tn: "t \<notin> ptag ` set ps" by auto
  show ?case
  proof (cases "pair_msgInt q")
    case None
    with Cons.prems show ?thesis by simp
  next
    case (Some msgInt)
    show ?thesis
    proof (cases "revs_marshal (pair_revs q)")
      case None
      with Some Cons.prems(1) have "y' = ?y0" by (simp add: Let_def)
      with tq show ?thesis by (simp add: update_conv')
    next
      case js: (Some jsbytes)
      from Some js Cons.prems(1) obtain pl nt where
        rec: "build_payload e ps pl nt (?y0\<lparr>lastclone := (lastclone ?y0)(ptag q \<mapsto> jsbytes)\<rparr>)
                = (r, y')"
        by (simp add: Let_def)
      from Cons.IH [OF rec tn] tq show ?thesis by (simp add: update_conv')
    qed
  qed
qed

lemma build_payload_inv:
  "build_payload e ps payload ntid y = (r, y') \<Longrightarrow> distinct (map ptag ps) \<Longrightarrow>
   \<forall>p \<in> set ps. lversion y (ptag p) \<le> pver p \<Longrightarrow> published_ok y \<Longrightarrow>
     published_ok y' \<and> (\<forall>t. lversion y t \<le> lversion y' t)
     \<and> ((\<exists>res. r = Inr res) \<longrightarrow> (\<forall>p \<in> set ps. lversion y' (ptag p) = pver p))"
proof (induction ps arbitrary: payload ntid y)
  case Nil
  then show ?case by simp
next
  case (Cons q ps)
  let ?y0 = "y\<lparr>last_synced := AList.update (ptag q) (pair_revs q) (last_synced y)\<rparr>"
  have ok0: "published_ok ?y0" using Cons.prems(4) by (rule published_ok_update)
  have le0: "\<forall>t. lversion y t \<le> lversion ?y0 t"
    using Cons.prems(3) by (simp add: lversion_update)
  show ?case
  proof (cases "pair_msgInt q")
    case None
    with Cons.prems(1) have "r = Inl NilPointer" "y' = y" by simp_all
    with Cons.prems(4) show ?thesis by simp
  next
    case (Some msgInt)
    show ?thesis
    proof (cases "revs_marshal (pair_revs q)")
      case None
      with Some Cons.prems(1) have "r = Inl MarshalError" "y' = ?y0"
        by (simp_all add: Let_def)
      with ok0 le0 show ?thesis by simp
    next
      case js: (Some jsbytes)
      let ?y1 = "?y0\<lparr>lastclone := (lastclone ?y0)(ptag q \<mapsto> jsbytes)\<rparr>"
      from Some js Cons.prems(1) obtain pl nt where
        rec: "build_payload e ps pl nt ?y1 = (r, y')"
        by (simp add: Let_def)
      have d: "distinct (map ptag ps)" and qn: "ptag q \<notin> ptag ` set ps"
        using Cons.prems(2) by simp_all
      have qn': "\<forall>p \<in> set ps. ptag p \<noteq> ptag q" using qn by (metis imageI)
      have le1: "\<forall>p \<in> set ps. lversion ?y1 (ptag p) \<le> pver p"
        using Cons.prems(3) qn' by (simp add: lversion_update)
      have ok1: "published_ok ?y1" using ok0 by simp
      note ih = Cons.IH [OF rec d le1 ok1]
      have a: "\<forall>t. lversion y t \<le> lversion y' t"
      proof
        fix t
        have "lversion y t \<le> lversion ?y1 t" using le0 by simp
        also have "\<dots> \<le> lversion y' t" using ih by blast
        finally show "lversion y t \<le> lversion y' t" .
      qed
      have b: "(\<exists>res. r = Inr res) \<longrightarrow> (\<forall>p \<in> set (q # ps). lversion y' (ptag p) = pver p)"
      proof
        assume ex: "\<exists>res. r = Inr res"
        with ih have rest: "\<forall>p \<in> set ps. lversion y' (ptag p) = pver p" by blast
        have "map_of (last_synced y') (ptag q) = map_of (last_synced ?y1) (ptag q)"
          using rec qn by (rule build_payload_last_other)
        then have "lversion y' (ptag q) = pver q"
          by (simp add: lversion_def update_conv')
        with rest show "\<forall>p \<in> set (q # ps). lversion y' (ptag p) = pver p" by simp
      qed
      from ih a b show ?thesis by blast
    qed
  qed
qed

lemma filter_pairs_ge:
  "filter_pairs smap y newCnt pairs = Inr toSend \<Longrightarrow>
     \<forall>p \<in> set toSend. lversion y (ptag p) \<le> pver p"
proof (induction pairs arbitrary: toSend)
  case Nil
  then show ?case by simp
next
  case (Cons q pairs)
  from Cons.prems obtain ts where ts: "filter_pairs smap y newCnt pairs = Inr ts"
    and alt: "toSend = ts \<or> (toSend = q # ts \<and> lversion y (ptag q) \<le> pver q)"
    by (cases "pair_msgInt q"; cases "filter_pairs smap y newCnt pairs")
       (auto split: if_splits)
  with Cons.IH [OF ts] show ?case by auto
qed

lemma filter_pairs_distinct:
  "filter_pairs smap y newCnt pairs = Inr toSend \<Longrightarrow> distinct (map ptag pairs) \<Longrightarrow>
     distinct (map ptag toSend)"
proof (induction pairs arbitrary: toSend)
  case Nil
  then show ?case by simp
next
  case (Cons q pairs)
  from Cons.prems(1) obtain ts where ts: "filter_pairs smap y newCnt pairs = Inr ts"
    and alt: "toSend = ts \<or> toSend = q # ts"
    by (cases "pair_msgInt q"; cases "filter_pairs smap y newCnt pairs")
       (auto split: if_splits)
  from Cons.prems(2) have d: "distinct (map ptag pairs)" and qn: "ptag q \<notin> ptag ` set pairs"
    by simp_all
  have "ptag ` set ts \<subseteq> ptag ` set pairs"
    using filter_pairs_subset [OF ts] by (rule image_mono)
  with qn have "ptag q \<notin> ptag ` set ts" by blast
  with Cons.IH [OF ts d] alt show ?case by auto
qed

lemma bcast_steps_Inr: "\<exists>n. fst (bcast_steps e smap m b pairs ntid y) = Inr n"
proof -
  obtain res y1 where bc: "broadcastTo e (reply0 e) (metasync_path e) m b smap
         (CplaneOperation (Timeout (config e)) * 2) NetworkIntraControl AllNodes y = (res, y1)"
    by (cases "broadcastTo e (reply0 e) (metasync_path e) m b smap
         (CplaneOperation (Timeout (config e)) * 2) NetworkIntraControl AllNodes y")
  obtain refused cnt y2 where cf: "count_failures pairs ntid res [] 0 y1 = ((refused, cnt), y2)"
    by (cases "count_failures pairs ntid res [] 0 y1") auto
  obtain r y3 where rr: "retry_refused e 0 m (metasync_path e) b pairs refused y2 = (r, y3)"
    by (cases "retry_refused e 0 m (metasync_path e) b pairs refused y2")
  show ?thesis using bc cf rr by (cases r) (simp_all add: bcast_steps_def)
qed

lemma doSync_cases [consumes 1, case_names unchanged notify marshal_failed sent]:
  assumes ds: "doSync e pairs msgInt y = (r, y')"
  obtains (unchanged) "y' = y"
    | (notify) "pairs = []"
        "bcast_steps e (smap0 e) MethodPost (MsgBody msgInt) [] '''' y = (r, y')"
    | (marshal_failed) toSend f where
        "filter_pairs (smap0 e) y (countNewMembers y (smap0 e)) pairs = Inr toSend"
        "build_payload e toSend [] '''' y = (Inl f, y')"
    | (sent) toSend payload ntid y1 where
        "filter_pairs (smap0 e) y (countNewMembers y (smap0 e)) pairs = Inr toSend"
        "build_payload e toSend [] '''' y = (Inr (payload, ntid), y1)"
        "bcast_steps e (smap0 e) MethodPut (PayloadBody payload) toSend ntid y1 = (r, y')"
proof (cases "cow_audit (lastclone y) (last_synced y)")
  case (Some f)
  with ds have "y' = y" by (simp add: doSync_def Let_def)
  then show thesis by (rule unchanged)
next
  case ca: None
  show thesis
  proof (cases "pairs = []")
    case True
    with ds ca have "bcast_steps e (smap0 e) MethodPost (MsgBody msgInt) [] '''' y = (r, y')"
      by (simp add: doSync_def Let_def)
    with True show thesis by (rule notify)
  next
    case ne: False
    show thesis
    proof (cases msgInt)
      case (Some a)
      with ds ca ne have "y' = y" by (simp add: doSync_def Let_def)
      then show thesis by (rule unchanged)
    next
      case mi: None
      show thesis
      proof (cases "filter_pairs (smap0 e) y (countNewMembers y (smap0 e)) pairs")
        case (Inl f)
        with ds ca ne mi have "y' = y" by (simp add: doSync_def Let_def)
        then show thesis by (rule unchanged)
      next
        case fp: (Inr toSend)
        show thesis
        proof (cases "toSend = []")
          case True
          with ds ca ne mi fp have "y' = y" by (simp add: doSync_def Let_def)
          then show thesis by (rule unchanged)
        next
          case tne: False
          obtain br y1 where bp: "build_payload e toSend [] '''' y = (br, y1)"
            by (cases "build_payload e toSend [] '''' y")
          show thesis
          proof (cases br)
            case (Inl f)
            with ds ca ne mi fp tne bp have "y' = y1" by (simp add: doSync_def Let_def)
            with bp Inl fp show thesis by (intro marshal_failed) simp_all
          next
            case (Inr pn)
            obtain payload ntid where pn: "pn = (payload, ntid)" by (cases pn)
            with Inr ds ca ne mi fp tne bp
            have "bcast_steps e (smap0 e) MethodPut (PayloadBody payload) toSend ntid y1 = (r, y')"
              by (simp add: doSync_def Let_def)
            with bp Inr pn fp show thesis by (intro sent) simp_all
          qed
        qed
      qed
    qed
  qed
qed

lemma lversion_cong: "last_synced y' = last_synced y \<Longrightarrow> lversion y' t = lversion y t"
  by (simp add: lversion_def)

lemma lversion_trace_upd [simp]: "lversion (y\<lparr>trace := tr\<rparr>) t = lversion y t"
  by (simp add: lversion_def)

lemma writes_fromD:
  "writes_from pairs evs \<Longrightarrow> Delivered s t v \<in> set evs \<Longrightarrow>
     \<exists>p \<in> set pairs. t = ptag p \<and> v = pver p"
  by (simp add: writes_from_def)

lemma bcast_steps_inv:
  assumes bs: "bcast_steps e smap m b pairs ntid y = (r, y')"
      and ok: "published_ok y"
      and mw: "mono_writes (y0\<lparr>trace := trace y\<rparr>)"
      and le: "\<forall>t. lversion y0 t \<le> lversion y t"
      and eq: "\<forall>p \<in> set pairs. lversion y (ptag p) = pver p"
  shows "published_ok y' \<and> mono_writes y'"
proof -
  from bcast_steps_Inr [of e smap m b pairs ntid y] bs obtain n where r: "r = Inr n"
    by auto
  from bcast_steps_effect [OF bs [unfolded r]] obtain evs where
      l': "last_synced y' = last_synced y"
    and t': "trace y' = trace y @ Bcast (first_bcast e smap m b) # evs"
    and w: "writes_from pairs evs" by blast
  have lv: "\<And>t. lversion y' t = lversion y t" using l' by (rule lversion_cong)
  have "mono_writes y'"
  proof (rule mono_writes_extend [OF mw])
    show "trace y' = trace (y0\<lparr>trace := trace y\<rparr>) @ Bcast (first_bcast e smap m b) # evs"
      using t' by simp
    show "\<forall>t. lversion (y0\<lparr>trace := trace y\<rparr>) t \<le> lversion y' t"
      using le by (simp add: lv)
    show "\<forall>s t v. Delivered s t v \<in> set (Bcast (first_bcast e smap m b) # evs)
            \<longrightarrow> v = lversion y' t"
    proof (intro allI impI)
      fix s t v assume "Delivered s t v \<in> set (Bcast (first_bcast e smap m b) # evs)"
      then have "Delivered s t v \<in> set evs" by simp
      with w have "\<exists>p \<in> set pairs. t = ptag p \<and> v = pver p" by (rule writes_fromD)
      then obtain p where p: "p \<in> set pairs" and tp: "t = ptag p" and vp: "v = pver p"
        by (elim bexE conjE)
      from eq p have "lversion y (ptag p) = pver p" by (rule bspec)
      then show "v = lversion y' t" unfolding tp vp lv by (rule sym)
    qed
  qed
  moreover have "published_ok y'" using ok unfolding published_ok_def l' .
  ultimately show ?thesis by simp
qed

lemma mono_writes_trace_self [simp]: "mono_writes (y\<lparr>trace := trace y\<rparr>) = mono_writes y"
  by (simp add: mono_writes_def)

lemma doSync_inv:
  assumes ds: "doSync e pairs msgInt y = (r, y')"
      and ok: "published_ok y" and mw: "mono_writes y"
      and d: "distinct (map ptag pairs)"
  shows "published_ok y' \<and> mono_writes y'"
  using ds
proof (cases rule: doSync_cases)
  case unchanged
  with ok mw show ?thesis by simp
next
  case notify
  show ?thesis
    by (rule bcast_steps_inv [OF notify(2) ok, of y]) (simp_all add: mw)
next
  case (marshal_failed toSend f)
  note inv = build_payload_inv [OF marshal_failed(2)
      filter_pairs_distinct [OF marshal_failed(1) d] filter_pairs_ge [OF marshal_failed(1)] ok]
  have t: "trace y' = trace y @ []" using build_payload_effect [OF marshal_failed(2)] by simp
  have "mono_writes y'"
    by (rule mono_writes_extend [OF mw t]) (use inv in simp_all)
  with inv show ?thesis by simp
next
  case (sent toSend payload ntid y1)
  note inv = build_payload_inv [OF sent(2)
      filter_pairs_distinct [OF sent(1) d] filter_pairs_ge [OF sent(1)] ok]
  have t: "trace y1 = trace y" using build_payload_effect [OF sent(2)] by simp
  show ?thesis
  proof (rule bcast_steps_inv [OF sent(3), of y])
    show "published_ok y1" using inv by simp
    show "mono_writes (y\<lparr>trace := trace y1\<rparr>)" using mw by (simp add: t)
    show "\<forall>t. lversion y t \<le> lversion y1 t" using inv by simp
    show "\<forall>p \<in> set toSend. lversion y1 (ptag p) = pver p" using inv by blast
  qed
qed

lemma pending_nodes_effect:
  "pending_nodes needMap ns count pend y = (r, y') \<Longrightarrow> frame y y' \<and> trace y' = trace y"
proof (induction ns arbitrary: count pend y)
  case Nil
  then show ?case by simp
next
  case (Cons sid ns)
  show ?case
  proof (cases "map_of (revsmap y) sid")
    case None
    let ?y1 = "y\<lparr>revsmap := AList.update sid Map.empty (revsmap y)\<rparr>"
    from None Cons.prems obtain c p where
      "pending_nodes needMap ns c p ?y1 = (r, y')" by simp
    from Cons.IH [OF this] show ?thesis by (simp add: frame_def)
  next
    case (Some vermap)
    show ?thesis
    proof (cases "in_sync vermap (last_synced y)")
      case (Inl f)
      with Some Cons.prems show ?thesis by simp
    next
      case (Inr inSync)
      with Some Cons.prems obtain c p where
        "pending_nodes needMap ns c p y = (r, y')" by simp
      from Cons.IH [OF this] show ?thesis .
    qed
  qed
qed

lemma pending_effect:
  assumes "pending e needMap y = (r, y')"
  shows "trace y' = trace y \<and> last_synced y' = last_synced y \<and> lastclone y' = lastclone y
       \<and> retryTimer y' = retryTimer y \<and> timerStopped y' = timerStopped y"
proof (cases "isPrimary (smap0 e) (p_si e)")
  case False
  with assms have "y' = becomeNonPrimary y" by (simp add: pending_def)
  then show ?thesis by (simp add: becomeNonPrimary_def)
next
  case True
  obtain r1 y1 where pn: "pending_nodes needMap (Tmap (smap0 e) @ Pmap (smap0 e)) 0 [] y = (r1, y1)"
    by (cases "pending_nodes needMap (Tmap (smap0 e) @ Pmap (smap0 e)) 0 [] y")
  have "y' = y1"
  proof (cases r1)
    case (Inl f)
    with assms True pn show ?thesis by (simp add: pending_def)
  next
    case (Inr cp)
    obtain c p where "cp = (c, p)" by (cases cp)
    with Inr assms True pn show ?thesis by (simp add: pending_def)
  qed
  with pending_nodes_effect [OF pn] show ?thesis by (simp add: frame_def)
qed

lemma pending_payload_pairs:
  "pending_payload msgInt l payload pairs = Inr (payload', pairs') \<Longrightarrow>
     pairs' = pairs @ map (\<lambda>(t, r). \<lparr>pair_revs = r, pair_msgInt = Some msgInt\<rparr>) l"
proof (induction l arbitrary: payload pairs)
  case Nil
  then show ?case by simp
next
  case (Cons a l)
  obtain t r where a: "a = (t, r)" by (cases a)
  from Cons.prems obtain b where b: "revs_marshal r = Some b"
    by (cases "revs_marshal r") (simp_all add: a)
  from Cons.prems a b obtain pl where
    "pending_payload msgInt l pl (pairs @ [\<lparr>pair_revs = r, pair_msgInt = Some msgInt\<rparr>])
       = Inr (payload', pairs')" by simp
  from Cons.IH [OF this] show ?case by (simp add: a)
qed

lemma pending_results_exact:
  "pending_results pairs res cnt y = (cnt', y') \<Longrightarrow>
     cnt' = cnt + length (filter (\<lambda>r. err r \<noteq> None) res)
     \<and> trace y' = trace y @ concat (map (\<lambda>r. map (\<lambda>p. Delivered (si r) (ptag p) (pver p)) pairs)
                                        (filter (\<lambda>r. err r = None) res))
     \<and> frame y y'"
proof (induction res arbitrary: cnt y)
  case Nil
  then show ?case by simp
next
  case (Cons r res)
  show ?case
  proof (cases "err r = None")
    case True
    have "pending_results pairs res cnt (syncDone (si r) pairs y) = (cnt', y')"
      using Cons.prems by (simp add: True)
    from Cons.IH [OF this] have "cnt' = cnt + length (filter (\<lambda>r. err r \<noteq> None) res)"
      and "trace y' = trace (syncDone (si r) pairs y)
             @ concat (map (\<lambda>r. map (\<lambda>p. Delivered (si r) (ptag p) (pver p)) pairs)
                         (filter (\<lambda>r. err r = None) res))"
      and "frame (syncDone (si r) pairs y) y'" by simp_all
    moreover have "frame y (syncDone (si r) pairs y)" by simp
    ultimately show ?thesis by (simp add: True frame_def)
  next
    case False
    have "pending_results pairs res (cnt + 1) y = (cnt', y')"
      using Cons.prems by (simp add: False)
    from Cons.IH [OF this] show ?thesis by (simp add: False)
  qed
qed

lemma writes_from_concat:
  "writes_from pairs (concat (map (\<lambda>r. map (\<lambda>p. Delivered (f r) (ptag p) (pver p)) pairs) rs))"
  by (induction rs) (auto simp: writes_from_def)

lemma published_lversion:
  assumes "published_ok y" and "(t, r) \<in> set (last_synced y)"
  shows "revs_tag r = t \<and> lversion y t = revs_version r"
proof -
  from assms have "revs_tag r = t" by (auto simp: published_ok_def)
  moreover from assms have "map_of (last_synced y) t = Some r"
    by (simp add: published_ok_def)
  ultimately show ?thesis by (simp add: lversion_def)
qed

lemma handlePending_inv:
  assumes hp: "handlePending e y = (r, y')"
      and ok: "published_ok y" and mw: "mono_writes y"
  shows "published_ok y' \<and> mono_writes y'"
proof -
  obtain pr y1 where pe: "pending e True y = (pr, y1)" by (cases "pending e True y")
  note e1 = pending_effect [OF pe]
  have ok1: "published_ok y1" using ok unfolding published_ok_def by (simp add: e1)
  have mw1: "mono_writes y1" using mw unfolding mono_writes_def lversion_def by (simp add: e1)
  show ?thesis
  proof (cases pr)
    case (Inl f)
    with hp pe have "y' = y1" by (simp add: handlePending_def)
    with ok1 mw1 show ?thesis by simp
  next
    case (Inr cps)
    obtain count pend smap where cps: "cps = (count, pend, smap)" by (cases cps)
    show ?thesis
    proof (cases "count = 0")
      case True
      with hp pe Inr cps have "y' = y1" by (simp add: handlePending_def)
      with ok1 mw1 show ?thesis by simp
    next
      case False
      let ?msg = "newActionMsgInternalStr e ''metasync: handle-pending'' smap"
      show ?thesis
      proof (cases "pending_payload ?msg (last_synced y1) [] []")
        case (Inl f)
        with hp pe Inr cps False have "y' = y1" by (simp add: handlePending_def)
        with ok1 mw1 show ?thesis by simp
      next
        case pp: (Inr pl)
        obtain payload pairs where pl: "pl = (payload, pairs)" by (cases pl)
        let ?args = "\<lparr>req = \<lparr>httpMethod = MethodPut, path = metasync_path e,
                                 body = PayloadBody payload\<rparr>,
                          network = NetworkIntraControl,
                          timeout = CplaneOperation (Timeout (config e)),
                          nodes = [pend]\<rparr>"
        obtain res y2 where bc: "broadcast e (reply0 e) ?args y1 = (res, y2)"
          by (cases "broadcast e (reply0 e) ?args y1")
        obtain cnt y3 where prs: "pending_results pairs res 0 y2 = (cnt, y3)"
          by (cases "pending_results pairs res 0 y2")
        from hp pe Inr cps False pp pl bc prs have y': "y' = y3"
          by (simp add: handlePending_def)
        have y2: "y2 = y1\<lparr>trace := trace y1 @ [Bcast ?args]\<rparr>"
          using broadcast_effect [OF bc] by simp
        note ex = pending_results_exact [OF prs]
        let ?evs = "concat (map (\<lambda>r. map (\<lambda>p. Delivered (si r) (ptag p) (pver p)) pairs)
                                        (filter (\<lambda>r. err r = None) res))"
        have t3: "trace y3 = trace y1 @ Bcast ?args # ?evs" using ex by (simp add: y2)
        have l3: "last_synced y3 = last_synced y1" using ex by (simp add: y2 frame_def)
        have pairs: "pairs = map (\<lambda>(t, r). \<lparr>pair_revs = r, pair_msgInt = Some ?msg\<rparr>) (last_synced y1)"
          using pending_payload_pairs [OF pp [unfolded pl]] by simp
        have eq: "\<forall>p \<in> set pairs. lversion y1 (ptag p) = pver p"
        proof
          fix p assume "p \<in> set pairs"
          then obtain t r where tr: "(t, r) \<in> set (last_synced y1)" and p: "pair_revs p = r"
            unfolding pairs by auto
          from published_lversion [OF ok1 tr] show "lversion y1 (ptag p) = pver p"
            by (simp add: p)
        qed
        have lv: "\<And>t. lversion y3 t = lversion y1 t" using l3 by (simp add: lversion_def)
        have "mono_writes y3"
        proof (rule mono_writes_extend [OF mw1 t3])
          show "\<forall>t. lversion y1 t \<le> lversion y3 t" by (simp add: lv)
          show "\<forall>s t v. Delivered s t v \<in> set (Bcast ?args # ?evs) \<longrightarrow> v = lversion y3 t"
          proof (intro allI impI)
            fix s t v assume "Delivered s t v \<in> set (Bcast ?args # ?evs)"
            then have "Delivered s t v \<in> set ?evs" by simp
            with writes_from_concat [of pairs si "filter (\<lambda>r. err r = None) res"]
            have "\<exists>p \<in> set pairs. t = ptag p \<and> v = pver p" by (rule writes_fromD)
            then obtain p where p: "p \<in> set pairs" and tp: "t = ptag p" and vp: "v = pver p"
              by (elim bexE conjE)
            from eq p have "lversion y1 (ptag p) = pver p" by (rule bspec)
            then show "v = lversion y3 t" unfolding tp vp lv by (rule sym)
          qed
        qed
        moreover have "published_ok y3" using ok1 unfolding published_ok_def l3 .
        ultimately show ?thesis by (simp add: y')
      qed
    qed
  qed
qed

lemma run_ops_inv:
  "published_ok y \<Longrightarrow> mono_writes y \<Longrightarrow> \<forall>op \<in> set ops. distinct_tags op \<Longrightarrow>
     published_ok (run_ops y ops) \<and> mono_writes (run_ops y ops)"
proof (induction ops arbitrary: y)
  case Nil
  then show ?case by simp
next
  case (Cons op ops)
  from Cons.prems(3) have rest: "\<forall>op \<in> set ops. distinct_tags op" and hd: "distinct_tags op"
    by simp_all
  show ?case
  proof (cases op)
    case (OpSync e pairs msgInt)
    obtain r y' where ds: "doSync e pairs msgInt y = (r, y')"
      by (cases "doSync e pairs msgInt y")
    from hd OpSync have d: "distinct (map ptag pairs)" by simp
    note inv = doSync_inv [OF ds Cons.prems(1,2) d]
    show ?thesis
    proof (cases r)
      case (Inl f)
      with OpSync ds inv show ?thesis by simp
    next
      case (Inr n)
      from inv have "published_ok (run_ops y' ops) \<and> mono_writes (run_ops y' ops)"
        using rest by (intro Cons.IH) simp_all
      with OpSync ds Inr show ?thesis by simp
    qed
  next
    case (OpPending e)
    obtain r y' where hp: "handlePending e y = (r, y')"
      by (cases "handlePending e y")
    note inv = handlePending_inv [OF hp Cons.prems(1,2)]
    show ?thesis
    proof (cases r)
      case (Inl f)
      with OpPending hp inv show ?thesis by simp
    next
      case (Inr n)
      from inv have "published_ok (run_ops y' ops) \<and> mono_writes (run_ops y' ops)"
        using rest by (intro Cons.IH) simp_all
      with OpPending hp Inr show ?thesis by simp
    qed
  qed
qed

lemma newmetasyncer_inv: "published_ok newmetasyncer \<and> mono_writes newmetasyncer"
  by (simp add: published_ok_def mono_writes_def newmetasyncer_def)

section \<open>What handlePending does\<close>

lemma doSync_timer:
  assumes ds: "doSync e pairs msgInt y = (r, y')"
  shows "retryTimer y' = retryTimer y \<and> timerStopped y' = timerStopped y"
  using ds
proof (cases rule: doSync_cases)
  case unchanged
  then show ?thesis by simp
next
  case notify
  from bcast_steps_Inr [of e "smap0 e" MethodPost "MsgBody msgInt" "[]" "''''" y] notify(2)
  obtain n where r: "r = Inr n" by auto
  from bcast_steps_effect [OF notify(2) [unfolded r]] show ?thesis by simp
next
  case (marshal_failed toSend f)
  from build_payload_effect [OF marshal_failed(2)] show ?thesis by simp
next
  case (sent toSend payload ntid y1)
  from bcast_steps_Inr [of e "smap0 e" MethodPut "PayloadBody payload" toSend ntid y1] sent(3)
  obtain n where r: "r = Inr n" by auto
  from bcast_steps_effect [OF sent(3) [unfolded r]] build_payload_effect [OF sent(2)]
  show ?thesis by simp
qed

lemma pending_payload_keys:
  "pending_payload msgInt l payload pairs = Inr (payload', pairs') \<Longrightarrow>
     fst ` set payload \<union> fst ` set l \<subseteq> fst ` set payload'"
proof (induction l arbitrary: payload pairs)
  case Nil
  then show ?case by simp
next
  case (Cons a l)
  obtain t r where a: "a = (t, r)" by (cases a)
  from Cons.prems obtain b where b: "revs_marshal r = Some b"
    by (cases "revs_marshal r") (simp_all add: a)
  let ?pl = "AList.update (t @ actiontag) (ActionJSON msgInt) (AList.update t (RevsJSON b) payload)"
  from Cons.prems a b have
    "pending_payload msgInt l ?pl (pairs @ [\<lparr>pair_revs = r, pair_msgInt = Some msgInt\<rparr>])
       = Inr (payload', pairs')" by simp
  from Cons.IH [OF this] have "fst ` set ?pl \<union> fst ` set l \<subseteq> fst ` set payload'" .
  moreover have "fst ` set ?pl = insert (t @ actiontag) (insert t (fst ` set payload))"
    by (simp add: update_conv' dom_map_of_conv_image_fst [symmetric])
  ultimately show ?case by (auto simp: a)
qed

lemma broadcast_results_failed_list:
  "map si (filter (\<lambda>r. err r \<noteq> None)
        (map (\<lambda>sid. \<lparr>si = sid, err = reply sid\<rparr>) (filter (\<lambda>sid. sid \<noteq> self) xs)))
     = filter (\<lambda>sid. sid \<noteq> self \<and> reply sid \<noteq> None) xs"
  by (induction xs) simp_all

lemma pending_deliveries_eq:
  "concat (map (\<lambda>r. map (\<lambda>p. Delivered (si r) (ptag p) (pver p))
                  (map (\<lambda>(t, r). \<lparr>pair_revs = r, pair_msgInt = Some msg\<rparr>) published))
          (filter (\<lambda>r. err r = None)
             (map (\<lambda>sid. \<lparr>si = sid, err = reply0 e sid\<rparr>) (filter (\<lambda>sid. sid \<noteq> p_si e) pend))))
     = pending_deliveries e pend published"
proof -
  have inner: "\<And>s. map (\<lambda>p. Delivered s (ptag p) (pver p))
                  (map (\<lambda>(t, r). \<lparr>pair_revs = r, pair_msgInt = Some msg\<rparr>) published)
        = map (\<lambda>(t, r). Delivered s (revs_tag r) (revs_version r)) published"
    by (simp add: case_prod_unfold)
  show ?thesis
    unfolding pending_deliveries_def inner
    by (induction pend) simp_all
qed

lemma handlePending_sent:
  assumes pe: "pending e True y = (Inr (count, pend, smap), y1)"
      and c: "count \<noteq> 0"
      and hp: "handlePending e y = (Inr cnt, y')"
  shows "\<exists>payload.
           trace y' = trace y @ Bcast (pending_bcast e payload pend)
                        # pending_deliveries e pend (last_synced y)
           \<and> fst ` set (last_synced y) \<subseteq> fst ` set payload
           \<and> cnt = length (filter (\<lambda>sid. sid \<noteq> p_si e \<and> reply0 e sid \<noteq> None) pend)
           \<and> retryTimer y' = retryTimer y \<and> timerStopped y' = timerStopped y
           \<and> last_synced y' = last_synced y
           \<and> (\<exists>pairs. pending_payload
                         (newActionMsgInternalStr e ''metasync: handle-pending'' smap)
                         (last_synced y) [] [] = Inr (payload, pairs))"
proof -
  note e1 = pending_effect [OF pe]
  let ?msg = "newActionMsgInternalStr e ''metasync: handle-pending'' smap"
  obtain payload pairs where pp: "pending_payload ?msg (last_synced y1) [] [] = Inr (payload, pairs)"
  proof (cases "pending_payload ?msg (last_synced y1) [] []")
    case (Inl f)
    with hp pe c show ?thesis by (simp add: handlePending_def)
  next
    case (Inr pl)
    then show ?thesis using that by (cases pl) simp
  qed
  obtain res y2 where bc: "broadcast e (reply0 e) (pending_bcast e payload pend) y1 = (res, y2)"
    by (cases "broadcast e (reply0 e) (pending_bcast e payload pend) y1")
  obtain cnt3 y3 where prs: "pending_results pairs res 0 y2 = (cnt3, y3)"
    by (cases "pending_results pairs res 0 y2")
  from hp pe c pp bc prs have res': "cnt = cnt3" "y' = y3"
    by (simp_all add: handlePending_def pending_bcast_def)
  note be = broadcast_effect [OF bc]
  have y2: "y2 = y1\<lparr>trace := trace y1 @ [Bcast (pending_bcast e payload pend)]\<rparr>"
    using be by simp
  have res: "res = map (\<lambda>sid. \<lparr>si = sid, err = reply0 e sid\<rparr>) (filter (\<lambda>sid. sid \<noteq> p_si e) pend)"
    using be by (simp add: pending_bcast_def)
  note ex = pending_results_exact [OF prs]
  have pairs: "pairs = map (\<lambda>(t, r). \<lparr>pair_revs = r, pair_msgInt = Some ?msg\<rparr>) (last_synced y1)"
    using pending_payload_pairs [OF pp] by simp
  have l1: "last_synced y1 = last_synced y" using e1 by simp
  have "trace y3 = trace y2 @ pending_deliveries e pend (last_synced y)"
    using ex unfolding res pairs l1 pending_deliveries_eq by simp
  then have t: "trace y' = trace y @ Bcast (pending_bcast e payload pend)
                        # pending_deliveries e pend (last_synced y)"
    using e1 by (simp add: y2 res')
  have k: "fst ` set (last_synced y) \<subseteq> fst ` set payload"
    using pending_payload_keys [OF pp] by (simp add: l1)
  have "cnt3 = length (map si (filter (\<lambda>r. err r \<noteq> None) res))" using ex by simp
  then have n: "cnt = length (filter (\<lambda>sid. sid \<noteq> p_si e \<and> reply0 e sid \<noteq> None) pend)"
    unfolding res broadcast_results_failed_list res' .
  have f: "retryTimer y' = retryTimer y \<and> timerStopped y' = timerStopped y
           \<and> last_synced y' = last_synced y"
    using ex e1 by (simp add: y2 res' frame_def)
  have pp': "\<exists>pairs. pending_payload ?msg (last_synced y) [] [] = Inr (payload, pairs)"
    using pp unfolding l1 by (rule exI)
  note f1 = f [THEN conjunct1] and f2 = f [THEN conjunct2, THEN conjunct1]
    and f3 = f [THEN conjunct2, THEN conjunct2]
  show ?thesis by (intro exI [of _ payload] conjI t k n f1 f2 f3 pp')
qed

lemma pending_results_has_all:
  assumes "distinct (map ptag pairs)"
  shows "pending_results pairs res cnt y = (cnt', y') \<Longrightarrow>
     (\<forall>s. has_all y s pairs \<longrightarrow> has_all y' s pairs)
     \<and> (\<forall>r \<in> set res. err r = None \<longrightarrow> has_all y' (si r) pairs)"
proof (induction res arbitrary: cnt y)
  case Nil
  then show ?case by simp
next
  case (Cons r res)
  show ?case
  proof (cases "err r = None")
    case True
    have rec: "pending_results pairs res cnt (syncDone (si r) pairs y) = (cnt', y')"
      using Cons.prems by (simp add: True)
    note ih = Cons.IH [OF rec]
    have "has_all (syncDone (si r) pairs y) (si r) pairs"
      using assms by (rule has_all_syncDone_same)
    with ih have a: "has_all y' (si r) pairs" by blast
    have b: "\<forall>s. has_all y s pairs \<longrightarrow> has_all y' s pairs"
      using ih has_all_syncDone [OF assms] by blast
    from a b ih show ?thesis by simp
  next
    case False
    have rec: "pending_results pairs res (cnt + 1) y = (cnt', y')"
      using Cons.prems by (simp add: False)
    from Cons.IH [OF rec] show ?thesis by (simp add: False)
  qed
qed

lemma handlePending_delivered:
  assumes pe: "pending e True y = (Inr (count, pend, smap), y1)"
      and c: "count \<noteq> 0"
      and hp: "handlePending e y = (Inr cnt, y')"
      and ok: "published_ok y"
      and sid: "sid \<in> set pend" "sid \<noteq> p_si e" "reply0 e sid = None"
      and tr: "(t, r) \<in> set (last_synced y)"
  shows "delivered y' sid t = Some (revs_version r)"
proof -
  note e1 = pending_effect [OF pe]
  have l1: "last_synced y1 = last_synced y" using e1 by simp
  let ?msg = "newActionMsgInternalStr e ''metasync: handle-pending'' smap"
  obtain payload pairs where pp: "pending_payload ?msg (last_synced y1) [] [] = Inr (payload, pairs)"
  proof (cases "pending_payload ?msg (last_synced y1) [] []")
    case (Inl f)
    with hp pe c show ?thesis by (simp add: handlePending_def)
  next
    case (Inr pl)
    then show ?thesis using that by (cases pl) simp
  qed
  obtain res y2 where bc: "broadcast e (reply0 e) (pending_bcast e payload pend) y1 = (res, y2)"
    by (cases "broadcast e (reply0 e) (pending_bcast e payload pend) y1")
  obtain cnt3 y3 where prs: "pending_results pairs res 0 y2 = (cnt3, y3)"
    by (cases "pending_results pairs res 0 y2")
  from hp pe c pp bc prs have y': "y' = y3"
    by (simp add: handlePending_def pending_bcast_def)
  have res: "res = map (\<lambda>sid. \<lparr>si = sid, err = reply0 e sid\<rparr>) (filter (\<lambda>sid. sid \<noteq> p_si e) pend)"
    using broadcast_effect [OF bc] by (simp add: pending_bcast_def)
  have pairs: "pairs = map (\<lambda>(t, r). \<lparr>pair_revs = r, pair_msgInt = Some ?msg\<rparr>) (last_synced y)"
    using pending_payload_pairs [OF pp] by (simp add: l1)
  have tags: "map ptag pairs = map fst (last_synced y)"
  proof -
    have "\<forall>x \<in> set (last_synced y). revs_tag (snd x) = fst x"
      using ok by (auto simp: published_ok_def)
    then show ?thesis unfolding pairs by (simp add: case_prod_unfold)
  qed
  have d: "distinct (map ptag pairs)" using ok by (simp add: tags published_ok_def)
  have rin: "\<lparr>si = sid, err = None\<rparr> \<in> set res" using sid unfolding res by force
  from pending_results_has_all [OF d prs] rin have "has_all y3 sid pairs" by force
  moreover have pin: "\<lparr>pair_revs = r, pair_msgInt = Some ?msg\<rparr> \<in> set pairs"
    using tr unfolding pairs by force
  ultimately have "delivered y3 sid (revs_tag r) = Some (revs_version r)"
    unfolding has_all_def by force
  moreover have "revs_tag r = t" using ok tr by (auto simp: published_ok_def)
  ultimately show ?thesis by (simp add: y')
qed

lemma Run_work_timer:
  assumes w: "workCh y = rq # ch" and nn: "\<not> isNil rq"
      and ds: "doSync e (req_pairs rq) (req_msgInt rq) (y\<lparr>workCh := ch\<rparr>) = (Inr cnt, y1)"
  shows "\<exists>y2. Run_work e y = (Inr (), y2)
           \<and> retryTimer y2 = (if cnt > 0 \<and> timerStopped y \<and> req_pairs rq \<noteq> []
                               then Some (RetrySyncTime (Periodic (config e))) else retryTimer y)
           \<and> timerStopped y2 = (timerStopped y \<and> \<not> (cnt > 0 \<and> req_pairs rq \<noteq> []))"
proof -
  from doSync_timer [OF ds] have t: "retryTimer y1 = retryTimer y" "timerStopped y1 = timerStopped y"
    by simp_all
  show ?thesis
    using w nn ds t by (auto simp: Run_work_def Let_def)
qed

lemma in_sync_Inr:
  "in_sync vermap l = Inr b \<Longrightarrow> b = list_all (\<lambda>(t, r). vermap t = Some (revs_version r)) l"
  by (induction l) (auto split: option.splits if_splits)

lemma out_of_sync_None: "map_of (revsmap y) sid = None \<Longrightarrow> out_of_sync y sid"
  by (simp add: out_of_sync_def)

lemma out_of_sync_other:
  "s \<noteq> sid \<Longrightarrow> out_of_sync (y\<lparr>revsmap := AList.update sid vm (revsmap y)\<rparr>) s = out_of_sync y s"
  by (simp add: out_of_sync_def update_conv' split: option.splits)

lemma pending_nodes_set:
  "pending_nodes True ns count pend y = (Inr (count', pend'), y') \<Longrightarrow>
     set pend' = set pend \<union> {sid \<in> set ns. out_of_sync y sid}
     \<and> (distinct pend \<longrightarrow> distinct pend')
     \<and> (count' = 0) = (count = 0 \<and> (\<forall>sid \<in> set ns. \<not> out_of_sync y sid))"
proof (induction ns arbitrary: count pend y)
  case Nil
  then show ?case by simp
next
  case (Cons sid ns)
  show ?case
  proof (cases "map_of (revsmap y) sid")
    case None
    let ?y1 = "y\<lparr>revsmap := AList.update sid Map.empty (revsmap y)\<rparr>"
    from None Cons.prems have
      "pending_nodes True ns (count + 1) (List.insert sid pend) ?y1 = (Inr (count', pend'), y')"
      by simp
    from Cons.IH [OF this] have
        s: "set pend' = set (List.insert sid pend) \<union> {s \<in> set ns. out_of_sync ?y1 s}"
      and d: "distinct (List.insert sid pend) \<longrightarrow> distinct pend'"
      and c: "(count' = 0) = (count + 1 = 0 \<and> (\<forall>s \<in> set ns. \<not> out_of_sync ?y1 s))"
      by simp_all
    have o: "out_of_sync y sid" using None by (rule out_of_sync_None)
    have eq: "insert sid {s \<in> set ns. out_of_sync ?y1 s} = insert sid {s \<in> set ns. out_of_sync y s}"
    proof (rule set_eqI)
      fix s
      show "(s \<in> insert sid {s \<in> set ns. out_of_sync ?y1 s})
              = (s \<in> insert sid {s \<in> set ns. out_of_sync y s})"
        by (cases "s = sid") (simp_all add: out_of_sync_other)
    qed
    have "set pend' = set pend \<union> insert sid {s \<in> set ns. out_of_sync ?y1 s}"
      unfolding s by simp
    also have "\<dots> = set pend \<union> insert sid {s \<in> set ns. out_of_sync y s}"
      unfolding eq ..
    also have "\<dots> = set pend \<union> {s \<in> set (sid # ns). out_of_sync y s}"
      using o by auto
    finally have s': "set pend' = set pend \<union> {s \<in> set (sid # ns). out_of_sync y s}" .
    have d': "distinct pend \<longrightarrow> distinct pend'" using d by simp
    have c': "(count' = 0) = (count = 0 \<and> (\<forall>s \<in> set (sid # ns). \<not> out_of_sync y s))"
      using c o by simp
    from s' d' c' show ?thesis by (intro conjI)
  next
    case (Some vm)
    obtain inSync where isy: "in_sync vm (last_synced y) = Inr inSync"
    proof (cases "in_sync vm (last_synced y)")
      case (Inl f)
      with Some Cons.prems show ?thesis by simp
    next
      case (Inr b)
      then show ?thesis by (rule that)
    qed
    have o: "out_of_sync y sid = (\<not> inSync)"
      using in_sync_Inr [OF isy] Some by (simp add: out_of_sync_def)
    from Some isy Cons.prems have
      "pending_nodes True ns (if inSync then count else count + 1)
         (if inSync then pend else List.insert sid pend) y = (Inr (count', pend'), y')"
      by simp
    from Cons.IH [OF this] have
        s: "set pend' = set (if inSync then pend else List.insert sid pend)
                          \<union> {s \<in> set ns. out_of_sync y s}"
      and d: "distinct (if inSync then pend else List.insert sid pend) \<longrightarrow> distinct pend'"
      and c: "(count' = 0) = ((if inSync then count else count + 1) = 0
                               \<and> (\<forall>s \<in> set ns. \<not> out_of_sync y s))"
      by simp_all
    have s': "set pend' = set pend \<union> {s \<in> set (sid # ns). out_of_sync y s}"
      unfolding s using o by (cases inSync) auto
    have d': "distinct pend \<longrightarrow> distinct pend'" using d by (cases inSync) simp_all
    have c': "(count' = 0) = (count = 0 \<and> (\<forall>s \<in> set (sid # ns). \<not> out_of_sync y s))"
      unfolding c using o by (cases inSync) simp_all
    from s' d' c' show ?thesis by (intro conjI)
  qed
qed

lemma pending_set:
  assumes pe: "pending e True y = (Inr (count, pend, smap), y1)"
      and pr: "isPrimary (smap0 e) (p_si e)"
  shows "smap = smap0 e \<and> distinct pend
       \<and> set pend = {sid \<in> set (Tmap (smap0 e) @ Pmap (smap0 e)). out_of_sync y sid}
       \<and> (count = 0) = (\<forall>sid \<in> set (Tmap (smap0 e) @ Pmap (smap0 e)). \<not> out_of_sync y sid)"
proof -
  obtain r1 y2 where pn: "pending_nodes True (Tmap (smap0 e) @ Pmap (smap0 e)) 0 [] y = (r1, y2)"
    by (cases "pending_nodes True (Tmap (smap0 e) @ Pmap (smap0 e)) 0 [] y")
  from pe pr pn have r1: "r1 = Inr (count, pend)" and sm: "smap = smap0 e"
    by (auto simp: pending_def split: sum.splits)
  from pending_nodes_set [OF pn [unfolded r1]] sm show ?thesis by simp
qed

lemma actiontag_neq: "t \<noteq> t @ actiontag"
  by (simp add: actiontag_def)

lemma actiontag_not_Nil: "actiontag \<noteq> []"
  by (simp add: actiontag_def)

lemma plain_tagsD:
  "plain_tags tags \<Longrightarrow> t \<in> set tags \<Longrightarrow> t' \<in> set tags \<Longrightarrow> t \<noteq> t' @ actiontag"
  by (simp add: plain_tags_def list_all_iff)

lemma plain_tags_Cons: "plain_tags (t # tags) \<Longrightarrow> plain_tags tags"
  by (simp add: plain_tags_def list_all_iff)

lemma pending_payload_full:
  "pending_payload msgInt l payload pairs = Inr (payload', pairs') \<Longrightarrow>
   distinct (map fst l) \<Longrightarrow> plain_tags (map fst l) \<Longrightarrow> distinct (map fst payload) \<Longrightarrow>
     distinct (map fst payload')
     \<and> (\<forall>k. map_of payload' k =
            (case map_of l k of
               Some r \<Rightarrow> map_option RevsJSON (revs_marshal r)
             | None \<Rightarrow> if k \<in> (\<lambda>t. t @ actiontag) ` fst ` set l then Some (ActionJSON msgInt)
                       else map_of payload k))
     \<and> (\<forall>(t, r) \<in> set l. revs_marshal r \<noteq> None)"
proof (induction l arbitrary: payload pairs)
  case Nil
  then show ?case by simp
next
  case (Cons a l)
  obtain t r where a: "a = (t, r)" by (cases a)
  from Cons.prems(1) obtain b where b: "revs_marshal r = Some b"
    by (cases "revs_marshal r") (simp_all add: a)
  let ?pl = "AList.update (t @ actiontag) (ActionJSON msgInt) (AList.update t (RevsJSON b) payload)"
  from Cons.prems(1) a b have rec:
    "pending_payload msgInt l ?pl (pairs @ [\<lparr>pair_revs = r, pair_msgInt = Some msgInt\<rparr>])
       = Inr (payload', pairs')" by simp
  have dl: "distinct (map fst l)" and tl: "t \<notin> fst ` set l"
    using Cons.prems(2) by (simp_all add: a)
  have pt: "plain_tags (map fst l)" using Cons.prems(3) by (simp add: a plain_tags_Cons)
  have dp: "distinct (map fst ?pl)" using Cons.prems(4) by (simp add: distinct_update)
  have n1: "\<And>t'. t' \<in> fst ` set l \<Longrightarrow> t \<noteq> t' @ actiontag"
    using plain_tagsD [OF Cons.prems(3), of t] by (auto simp: a)
  have n2: "\<And>t'. t' \<in> fst ` set l \<Longrightarrow> t' \<noteq> t @ actiontag"
    using plain_tagsD [OF Cons.prems(3), of _ t] by (auto simp: a)
  from Cons.IH [OF rec dl pt dp] have
      d: "distinct (map fst payload')"
    and m: "\<And>k. map_of payload' k =
            (case map_of l k of
               Some r \<Rightarrow> map_option RevsJSON (revs_marshal r)
             | None \<Rightarrow> if k \<in> (\<lambda>t. t @ actiontag) ` fst ` set l then Some (ActionJSON msgInt)
                       else map_of ?pl k)"
    and ok: "\<forall>(t, r) \<in> set l. revs_marshal r \<noteq> None"
    by simp_all
  have mt: "map_of l t = None" using tl by (simp add: map_of_eq_None_iff)
  have mta: "map_of l (t @ actiontag) = None"
    using n2 by (auto simp: map_of_eq_None_iff)
  have tna: "t \<notin> (\<lambda>t. t @ actiontag) ` fst ` set l" using n1 by auto
  have m': "\<forall>k. map_of payload' k =
            (case map_of (a # l) k of
               Some r \<Rightarrow> map_option RevsJSON (revs_marshal r)
             | None \<Rightarrow> if k \<in> (\<lambda>t. t @ actiontag) ` fst ` set (a # l)
                       then Some (ActionJSON msgInt) else map_of payload k)"
  proof
    fix k
    show "map_of payload' k =
            (case map_of (a # l) k of
               Some r \<Rightarrow> map_option RevsJSON (revs_marshal r)
             | None \<Rightarrow> if k \<in> (\<lambda>t. t @ actiontag) ` fst ` set (a # l)
                       then Some (ActionJSON msgInt) else map_of payload k)"
    proof (cases "k = t")
      case True
      show ?thesis unfolding m True using mt tna b
        by (simp add: a update_conv' actiontag_not_Nil)
    next
      case kt: False
      show ?thesis
      proof (cases "k = t @ actiontag")
        case True
        show ?thesis unfolding m True using mta
          by (simp add: a update_conv' actiontag_not_Nil)
      next
        case False
        with kt show ?thesis unfolding m
          by (simp add: a update_conv' actiontag_not_Nil split: option.splits)
      qed
    qed
  qed
  have ok': "\<forall>(t, r) \<in> set (a # l). revs_marshal r \<noteq> None" using ok b by (simp add: a)
  from d m' ok' show ?case by (intro conjI)
qed

lemma pending_payload_content:
  assumes pp: "pending_payload msgInt l [] [] = Inr (payload, pairs)"
      and d: "distinct (map fst l)"
      and pl: "plain_tags (map fst l)"
  shows "distinct (map fst payload)
       \<and> (\<forall>(t, r) \<in> set l. \<exists>b. revs_marshal r = Some b
             \<and> map_of payload t = Some (RevsJSON b)
             \<and> map_of payload (t @ actiontag) = Some (ActionJSON msgInt))
       \<and> fst ` set payload = fst ` set l \<union> (\<lambda>t. t @ actiontag) ` fst ` set l"
proof -
  have d0: "distinct (map fst ([] :: (string \<times> payload_val) list))" by simp
  note full = pending_payload_full [OF pp d pl d0]
  note dp = full [THEN conjunct1]
  note m0 = full [THEN conjunct2, THEN conjunct1, rule_format]
  note ok = full [THEN conjunct2, THEN conjunct2]
  have m: "\<And>k. map_of payload k =
            (case map_of l k of
               Some r \<Rightarrow> map_option RevsJSON (revs_marshal r)
             | None \<Rightarrow> if k \<in> (\<lambda>t. t @ actiontag) ` fst ` set l then Some (ActionJSON msgInt)
                       else None)"
    unfolding m0 by (simp split: option.splits)
  have c: "\<forall>(t, r) \<in> set l. \<exists>b. revs_marshal r = Some b
             \<and> map_of payload t = Some (RevsJSON b)
             \<and> map_of payload (t @ actiontag) = Some (ActionJSON msgInt)"
  proof (intro ballI)
    fix x assume x: "x \<in> set l"
    obtain t r where xr: "x = (t, r)" by (cases x)
    from ok x xr obtain b where b: "revs_marshal r = Some b" by auto
    have mt: "map_of l t = Some r" using d x xr by simp
    have "t @ actiontag \<notin> fst ` set l"
    proof
      assume "t @ actiontag \<in> fst ` set l"
      then have "t @ actiontag \<in> set (map fst l)" by simp
      moreover have "t \<in> set (map fst l)" using x xr by force
      ultimately show False using plain_tagsD [OF pl] by blast
    qed
    then have mta: "map_of l (t @ actiontag) = None" by (simp add: map_of_eq_None_iff)
    have ta: "t @ actiontag \<in> (\<lambda>t. t @ actiontag) ` fst ` set l" using x xr by force
    have "map_of payload t = Some (RevsJSON b)" unfolding m mt using b by simp
    moreover have "map_of payload (t @ actiontag) = Some (ActionJSON msgInt)"
      unfolding m mta using ta by simp
    ultimately show "case x of (t, r) \<Rightarrow> \<exists>b. revs_marshal r = Some b
             \<and> map_of payload t = Some (RevsJSON b)
             \<and> map_of payload (t @ actiontag) = Some (ActionJSON msgInt)"
      using b by (simp add: xr)
  qed
  have k: "fst ` set payload = fst ` set l \<union> (\<lambda>t. t @ actiontag) ` fst ` set l"
  proof (rule set_eqI)
    fix k
    have "(k \<in> fst ` set payload) = (map_of payload k \<noteq> None)"
      by (simp add: map_of_eq_None_iff)
    also have "\<dots> = (k \<in> fst ` set l \<union> (\<lambda>t. t @ actiontag) ` fst ` set l)"
    proof (cases "map_of l k")
      case None
      then have "k \<notin> fst ` set l" by (simp add: map_of_eq_None_iff)
      then show ?thesis unfolding m None by simp
    next
      case (Some r)
      then have kr: "(k, r) \<in> set l" by (rule map_of_SomeD)
      with ok have "revs_marshal r \<noteq> None" by auto
      moreover have "k \<in> fst ` set l" using kr by force
      ultimately show ?thesis unfolding m Some by simp
    qed
    finally show "(k \<in> fst ` set payload)
                  = (k \<in> fst ` set l \<union> (\<lambda>t. t @ actiontag) ` fst ` set l)" .
  qed
  from dp c k show ?thesis by (intro conjI)
qed

lemma out_of_sync_timer: "out_of_sync (y\<lparr>retryTimer := x\<rparr>) sid = out_of_sync y sid"
  by (simp add: out_of_sync_def split: option.splits)

lemma Run_timer_full:
  assumes rt: "retryTimer y = Some d"
      and pr: "isPrimary (smap0 e) (p_si e)"
      and run: "Run_timer e y = (Inr (), y')"
  shows "(if \<forall>sid \<in> set (Tmap (smap0 e) @ Pmap (smap0 e)). \<not> out_of_sync y sid
    then trace y' = trace y \<and> retryTimer y' = None \<and> timerStopped y'
    else \<exists>pend payload.
           distinct pend
         \<and> set pend = {sid \<in> set (Tmap (smap0 e) @ Pmap (smap0 e)). out_of_sync y sid}
         \<and> trace y' = trace y @ Bcast (pending_bcast e payload pend)
                         # pending_deliveries e pend (last_synced y)
         \<and> fst ` set (last_synced y) \<subseteq> fst ` set payload
         \<and> (published_ok y \<and> plain_tags (map fst (last_synced y)) \<longrightarrow>
               distinct (map fst payload)
             \<and> (\<forall>(t, r) \<in> set (last_synced y). \<exists>b. revs_marshal r = Some b
                   \<and> map_of payload t = Some (RevsJSON b)
                   \<and> map_of payload (t @ actiontag)
                       = Some (ActionJSON (newActionMsgInternalStr e
                                             ''metasync: handle-pending'' (smap0 e))))
             \<and> fst ` set payload = fst ` set (last_synced y)
                                    \<union> (\<lambda>t. t @ actiontag) ` fst ` set (last_synced y))
         \<and> (published_ok y \<longrightarrow>
              (\<forall>sid \<in> set pend. sid \<noteq> p_si e \<and> reply0 e sid = None \<longrightarrow>
                 (\<forall>(t, r) \<in> set (last_synced y). delivered y' sid t = Some (revs_version r))))
         \<and> retryTimer y' = (if \<exists>sid \<in> set pend. sid \<noteq> p_si e \<and> reply0 e sid \<noteq> None
                             then Some (RetrySyncTime (Periodic (config e))) else None)
         \<and> timerStopped y' = (\<not> (\<exists>sid \<in> set pend. sid \<noteq> p_si e \<and> reply0 e sid \<noteq> None)))"
proof -
  let ?y0 = "y\<lparr>retryTimer := None\<rparr>"
  let ?ns = "Tmap (smap0 e) @ Pmap (smap0 e)"
  let ?msg = "newActionMsgInternalStr e ''metasync: handle-pending'' (smap0 e)"
  obtain hr y3 where hp0: "handlePending e ?y0 = (hr, y3)" by (cases "handlePending e ?y0")
  obtain cnt where hr: "hr = Inr cnt"
  proof (cases hr)
    case (Inl f)
    with run rt hp0 show ?thesis by (simp add: Run_timer_def)
  next
    case (Inr n)
    then show ?thesis by (rule that)
  qed
  note hp = hp0 [unfolded hr]
  have y': "y' = (if cnt > 0
                  then y3\<lparr>retryTimer := Some (RetrySyncTime (Periodic (config e))),
                          timerStopped := False\<rparr>
                  else y3\<lparr>timerStopped := True\<rparr>)"
    using run rt hp by (simp add: Run_timer_def split: if_splits)
  obtain pres y1 where pe0: "pending e True ?y0 = (pres, y1)" by (cases "pending e True ?y0")
  obtain count pend smap where pres: "pres = Inr (count, pend, smap)"
  proof (cases pres)
    case (Inl f)
    with hp pe0 show ?thesis by (simp add: handlePending_def)
  next
    case (Inr t)
    then show ?thesis using that by (cases t) simp
  qed
  note pe = pe0 [unfolded pres]
  note ps = pending_set [OF pe pr]
  have sm: "smap = smap0 e" using ps by simp
  have dp: "distinct pend" using ps by simp
  have sp: "set pend = {sid \<in> set ?ns. out_of_sync y sid}"
    using ps [THEN conjunct2, THEN conjunct2, THEN conjunct1] by (simp add: out_of_sync_timer)
  have c0: "(count = 0) = (\<forall>sid \<in> set ?ns. \<not> out_of_sync y sid)"
    using ps [THEN conjunct2, THEN conjunct2, THEN conjunct2] by (simp add: out_of_sync_timer)
  show ?thesis
  proof (cases "count = 0")
    case True
    with hp pe have h: "cnt = 0" "y3 = y1" by (simp_all add: handlePending_def)
    note e1 = pending_effect [OF pe]
    have "trace y' = trace y \<and> retryTimer y' = None \<and> timerStopped y'"
      using e1 by (simp add: y' h)
    with True c0 show ?thesis by simp
  next
    case c: False
    from handlePending_sent [OF pe c hp] obtain payload pairs where
        t: "trace y3 = trace ?y0 @ Bcast (pending_bcast e payload pend)
                          # pending_deliveries e pend (last_synced ?y0)"
      and k: "fst ` set (last_synced ?y0) \<subseteq> fst ` set payload"
      and n: "cnt = length (filter (\<lambda>sid. sid \<noteq> p_si e \<and> reply0 e sid \<noteq> None) pend)"
      and f1: "retryTimer y3 = retryTimer ?y0" and f2: "timerStopped y3 = timerStopped ?y0"
      and pp: "pending_payload
                 (newActionMsgInternalStr e ''metasync: handle-pending'' smap)
                 (last_synced ?y0) [] [] = Inr (payload, pairs)"
      by (elim exE conjE)
    have pp': "pending_payload ?msg (last_synced y) [] [] = Inr (payload, pairs)"
      using pp unfolding sm by simp
    have pos: "(cnt > 0) = (\<exists>sid \<in> set pend. sid \<noteq> p_si e \<and> reply0 e sid \<noteq> None)"
      unfolding n by (simp add: filter_empty_conv)
    have a1: "trace y' = trace y @ Bcast (pending_bcast e payload pend)
                         # pending_deliveries e pend (last_synced y)"
      using t by (simp add: y')
    have a2: "fst ` set (last_synced y) \<subseteq> fst ` set payload" using k by simp
    have a3: "published_ok y \<and> plain_tags (map fst (last_synced y)) \<longrightarrow>
               distinct (map fst payload)
             \<and> (\<forall>(t, r) \<in> set (last_synced y). \<exists>b. revs_marshal r = Some b
                   \<and> map_of payload t = Some (RevsJSON b)
                   \<and> map_of payload (t @ actiontag) = Some (ActionJSON ?msg))
             \<and> fst ` set payload = fst ` set (last_synced y)
                                    \<union> (\<lambda>t. t @ actiontag) ` fst ` set (last_synced y)"
    proof
      assume h: "published_ok y \<and> plain_tags (map fst (last_synced y))"
      then have d: "distinct (map fst (last_synced y))" by (simp add: published_ok_def)
      from h have pl: "plain_tags (map fst (last_synced y))" by simp
      show "distinct (map fst payload)
             \<and> (\<forall>(t, r) \<in> set (last_synced y). \<exists>b. revs_marshal r = Some b
                   \<and> map_of payload t = Some (RevsJSON b)
                   \<and> map_of payload (t @ actiontag) = Some (ActionJSON ?msg))
             \<and> fst ` set payload = fst ` set (last_synced y)
                                    \<union> (\<lambda>t. t @ actiontag) ` fst ` set (last_synced y)"
        by (rule pending_payload_content [OF pp' d pl])
    qed
    have a4: "published_ok y \<longrightarrow>
              (\<forall>sid \<in> set pend. sid \<noteq> p_si e \<and> reply0 e sid = None \<longrightarrow>
                 (\<forall>(t, r) \<in> set (last_synced y). delivered y' sid t = Some (revs_version r)))"
    proof (intro impI ballI)
      fix sid x
      assume ok: "published_ok y" and sid: "sid \<in> set pend"
        and s2: "sid \<noteq> p_si e \<and> reply0 e sid = None" and x: "x \<in> set (last_synced y)"
      obtain t r where xr: "x = (t, r)" by (cases x)
      have ok0: "published_ok ?y0" using ok by (simp add: published_ok_def)
      have "delivered y3 sid t = Some (revs_version r)"
        by (rule handlePending_delivered [OF pe c hp ok0 sid]) (use s2 x xr in simp_all)
      then have "delivered y' sid t = Some (revs_version r)"
        by (simp add: y' delivered_def)
      then show "case x of (t, r) \<Rightarrow> delivered y' sid t = Some (revs_version r)"
        by (simp add: xr)
    qed
    have a5: "retryTimer y' = (if \<exists>sid \<in> set pend. sid \<noteq> p_si e \<and> reply0 e sid \<noteq> None
                             then Some (RetrySyncTime (Periodic (config e))) else None)"
      unfolding pos [symmetric] using f1 by (simp add: y')
    have a6: "timerStopped y' = (\<not> (\<exists>sid \<in> set pend. sid \<noteq> p_si e \<and> reply0 e sid \<noteq> None))"
      unfolding pos [symmetric] by (simp add: y')
    have ex: "\<exists>pend payload.
           distinct pend
         \<and> set pend = {sid \<in> set ?ns. out_of_sync y sid}
         \<and> trace y' = trace y @ Bcast (pending_bcast e payload pend)
                         # pending_deliveries e pend (last_synced y)
         \<and> fst ` set (last_synced y) \<subseteq> fst ` set payload
         \<and> (published_ok y \<and> plain_tags (map fst (last_synced y)) \<longrightarrow>
               distinct (map fst payload)
             \<and> (\<forall>(t, r) \<in> set (last_synced y). \<exists>b. revs_marshal r = Some b
                   \<and> map_of payload t = Some (RevsJSON b)
                   \<and> map_of payload (t @ actiontag) = Some (ActionJSON ?msg))
             \<and> fst ` set payload = fst ` set (last_synced y)
                                    \<union> (\<lambda>t. t @ actiontag) ` fst ` set (last_synced y))
         \<and> (published_ok y \<longrightarrow>
              (\<forall>sid \<in> set pend. sid \<noteq> p_si e \<and> reply0 e sid = None \<longrightarrow>
                 (\<forall>(t, r) \<in> set (last_synced y). delivered y' sid t = Some (revs_version r))))
         \<and> retryTimer y' = (if \<exists>sid \<in> set pend. sid \<noteq> p_si e \<and> reply0 e sid \<noteq> None
                             then Some (RetrySyncTime (Periodic (config e))) else None)
         \<and> timerStopped y' = (\<not> (\<exists>sid \<in> set pend. sid \<noteq> p_si e \<and> reply0 e sid \<noteq> None))"
      by (rule exI [of _ pend], rule exI [of _ payload]) (intro conjI dp sp a1 a2 a3 a4 a5 a6)
    have ne: "\<not> (\<forall>sid \<in> set ?ns. \<not> out_of_sync y sid)" using c c0 by simp
    show ?thesis unfolding if_not_P [OF ne] by (rule ex)
  qed
qed

text \<open>
  Whether a peer is in sync does not depend on the order in which the published tags are
  visited, and the assertion of \<^verbatim>\<open>pending\<close> cannot fail when no recorded version is above
  the published one.
\<close>

lemma in_sync_no_abort:
  "\<forall>(t, r) \<in> set l. \<forall>v. vermap t = Some v \<longrightarrow> v \<le> revs_version r \<Longrightarrow>
     in_sync vermap l = Inr (list_all (\<lambda>(t, r). vermap t = Some (revs_version r)) l)"
  by (induction l) (auto split: option.splits)
section \<open>Requests of a node that is not primary\<close>

text \<open>
  C7.  On a node that is not the primary of the current cluster map, \<^verbatim>\<open>sync\<close> and
  \<^verbatim>\<open>notify\<close> log an error and return: the state afterwards is the state before with the
  log line added, so nothing was put on the work channel (and so nothing for the loop to
  run \<^verbatim>\<open>doSync\<close> on) and nothing was broadcast.
\<close>

theorem nonprimary_request_dropped:
  assumes "\<not> isPrimary (smap0 e) (p_si e)"
  shows "sync e wait pairs y = (Inr (), y\<lparr>trace := trace y @ [LogNotPrimary]\<rparr>)
       \<and> notify e wait failedCnt msg y = y\<lparr>trace := trace y @ [LogNotPrimary]\<rparr>"
  using assms by (simp add: sync_def notify_def checkPrimary_def)

theorem nonprimary_request_dropped_witness:
  "\<not> isPrimary (smap0 (ex_env\<lparr>p_si := ''P1''\<rparr>)) (p_si (ex_env\<lparr>p_si := ''P1''\<rparr>))
   \<and> workCh (snd (sync (ex_env\<lparr>p_si := ''P1''\<rparr>) True [ex_pair] newmetasyncer)) = []
   \<and> trace (notify (ex_env\<lparr>p_si := ''P1''\<rparr>) True False (Some ex_msg) newmetasyncer)
       = [LogNotPrimary]"
proof -
  have h: "\<not> isPrimary (smap0 (ex_env\<lparr>p_si := ''P1''\<rparr>)) (p_si (ex_env\<lparr>p_si := ''P1''\<rparr>))"
    by (simp add: isPrimary_def ex_env_def ex_smap_def)
  show ?thesis
    using h nonprimary_request_dropped [OF h, where wait = True and pairs = "[ex_pair]"
        and y = newmetasyncer and failedCnt = False and msg = "Some ex_msg"]
    by (simp add: newmetasyncer_def)
qed

section \<open>The nil work request\<close>

text \<open>
  C10.  On the primary, \<^verbatim>\<open>sync\<close> with an empty pair list fails its
  assertion and puts nothing on the work channel.  Whatever its arguments, \<^verbatim>\<open>sync\<close> either
  leaves the work channel alone or appends one request that is not nil.
  \<^verbatim>\<open>becomeNonPrimary\<close> appends the nil request.  \<^verbatim>\<open>notify\<close> on the primary appends a
  request that is nil exactly when its message is \<^verbatim>\<open>nil\<close>.
\<close>

theorem sync_request_never_nil:
  "(isPrimary (smap0 e) (p_si e) \<longrightarrow> sync e wait [] y = (Inl AssertFailed, y))
   \<and> (workCh (snd (sync e wait pairs y)) = workCh y
        \<or> (\<exists>r. workCh (snd (sync e wait pairs y)) = workCh y @ [r] \<and> \<not> isNil r))
   \<and> (\<exists>r. workCh (becomeNonPrimary y) = workCh y @ [r] \<and> isNil r)
   \<and> (isPrimary (smap0 e) (p_si e) \<longrightarrow>
        (\<exists>r. workCh (notify e wait failedCnt msg y) = workCh y @ [r]
              \<and> isNil r = (msg = None)))"
  by (auto simp: sync_def notify_def checkPrimary_def becomeNonPrimary_def isNil_def)

theorem sync_request_never_nil_witness:
  "isPrimary (smap0 ex_env) (p_si ex_env)
   \<and> sync ex_env True [] newmetasyncer = (Inl AssertFailed, newmetasyncer)"
proof -
  have h: "isPrimary (smap0 ex_env) (p_si ex_env)"
    by (simp add: isPrimary_def ex_env_def ex_smap_def)
  show ?thesis
    using h sync_request_never_nil [where e = ex_env and wait = True and y = newmetasyncer]
    by simp
qed

section \<open>The copy-on-write audit\<close>

lemma cow_audit_finds:
  assumes "(tag, r) \<in> set l" "clone tag = Some cowcopy" "revs_marshal r \<noteq> Some cowcopy"
  shows "cow_audit clone l = Some MarshalError
       \<or> (\<exists>t v. cow_audit clone l = Some (CoWViolation t v))"
  using assms
proof (induction l)
  case Nil
  then show ?case by simp
next
  case (Cons a l)
  obtain t' r' where a: "a = (t', r')" by (cases a)
  show ?case
  proof (cases "a = (tag, r)")
    case True
    with Cons.prems show ?thesis by (auto split: option.splits)
  next
    case False
    with Cons have "cow_audit clone l = Some MarshalError
        \<or> (\<exists>t v. cow_audit clone l = Some (CoWViolation t v))" by auto
    then show ?thesis by (auto simp: a split: option.splits)
  qed
qed

text \<open>
  C4.  Whatever the request, if some published tag has a recorded clone and its object no
  longer serializes to that clone, \<^verbatim>\<open>doSync\<close> aborts (on the copy-on-write assertion, or on
  the assertion that marshalling succeeds) in the very state it started in: nothing was
  broadcast, nothing published.
\<close>

theorem cow_violation_aborts_before_bcast:
  assumes "(tag, r) \<in> set (last_synced y)"
      and "lastclone y tag = Some cowcopy"
      and "revs_marshal r \<noteq> Some cowcopy"
  shows "doSync e pairs msgInt y = (Inl MarshalError, y)
       \<or> (\<exists>t v. doSync e pairs msgInt y = (Inl (CoWViolation t v), y))"
  using cow_audit_finds [of tag r "last_synced y" "lastclone y" cowcopy] assms
  by (auto simp: doSync_def Let_def)

theorem cow_violation_aborts_before_bcast_witness:
  "(bucketmdtag, ex_bmd\<lparr>revs_marshal := Some ''bmd-v1-changed''\<rparr>) \<in> set (last_synced ex_mutated)
   \<and> lastclone ex_mutated bucketmdtag = Some ''bmd-v1''
   \<and> doSync ex_env [ex_pair] None ex_mutated = (Inl (CoWViolation bucketmdtag 1), ex_mutated)
   \<and> trace ex_mutated = []"
proof -
  have h1: "(bucketmdtag, ex_bmd\<lparr>revs_marshal := Some ''bmd-v1-changed''\<rparr>)
              \<in> set (last_synced ex_mutated)"
    by (simp add: ex_mutated_def)
  have h2: "lastclone ex_mutated bucketmdtag = Some ''bmd-v1''"
    by (simp add: ex_mutated_def)
  have h3: "revs_marshal (ex_bmd\<lparr>revs_marshal := Some ''bmd-v1-changed''\<rparr>) \<noteq> Some ''bmd-v1''"
    by simp
  have h4: "cow_audit (lastclone ex_mutated) (last_synced ex_mutated)
              = Some (CoWViolation bucketmdtag 1)"
    by (simp add: ex_mutated_def ex_bmd_def)
  have h5: "trace ex_mutated = []"
    by (simp add: ex_mutated_def newmetasyncer_def)
  show ?thesis
    using h1 h2 h4 h5
      cow_violation_aborts_before_bcast [OF h1 h2 h3, of ex_env "[ex_pair]" None]
    by (simp add: doSync_def)
qed

section \<open>Synchronizing the same pair twice\<close>

text \<open>
  C8.  The primary \<open>P0\<close> synchronizes the bucket metadata, version 1, with its one target,
  and the target acknowledges.  The delivery state then has an entry for the target and
  none for \<open>P0\<close> itself, which \<^verbatim>\<open>broadcast\<close> never calls; \<^verbatim>\<open>countNewMembers\<close> counts \<open>P0\<close>, a
  member of the cluster map, as new.  So the same pair, synchronized again, is not dropped
  as a duplicate: it is broadcast and delivered a second time.
\<close>

theorem duplicate_sync_rebroadcasts:
  "doSync ex_env [ex_pair] None newmetasyncer = (Inr 0, ex_synced)
   \<and> countNewMembers ex_synced (smap0 ex_env) = 1
   \<and> map_of (revsmap ex_synced) (p_si ex_env) = None
   \<and> doSync ex_env [ex_pair] None ex_synced
       = (Inr 0, ex_synced\<lparr>trace := trace ex_synced @
                               [Bcast ex_bcast, Delivered ''T1'' bucketmdtag 1]\<rparr>)"
  by (simp add: ms_eval ex_defs ex_bcast_def ex_synced_def)

text \<open>
  When every member of the cluster map, the node itself included, has an entry in the
  delivery state, the duplicate is dropped: the state is unchanged, nothing is broadcast
  and no failure is counted.
\<close>

lemma duplicate_dropped_without_new_members:
  assumes "cow_audit (lastclone y) (last_synced y) = None"
      and "countNewMembers y (smap0 e) = 0"
      and "pair_msgInt p \<noteq> None"
      and "lversion y (ptag p) = pver p"
      and "ptag p = smaptag \<longrightarrow> pver p \<le> Version (smap0 e)"
  shows "doSync e [p] None y = (Inr 0, y)"
  using assms by (auto simp: doSync_def Let_def split: option.splits)

section \<open>The retry of refused peers\<close>

text \<open>
  C5.  Let the first broadcast of \<^verbatim>\<open>doSync\<close> have returned \<open>res\<close>, step 4 have counted \<open>cnt\<close>
  failures and collected \<open>refused\<close>, and the retry loop have ended with \<open>r\<close>, having slept \<open>n\<close>
  times.  Then \<open>n\<close> is at most ten; everything the loop did was to sleep for
  \<^verbatim>\<open>cplane-operation\<close>, to broadcast the same request to refused peers only, with timeout
  \<^verbatim>\<open>max-keepalive\<close>, and to record deliveries to refused peers; it did nothing at all when no
  peer was refused.

  If the loop ended by \<^verbatim>\<open>becomeNonPrimary\<close> (\<open>r = None\<close>), it ran \<open>k\<close> whole rounds,
  \<open>k < 10\<close>, each of them finding the node primary and a peer still refused, and then slept
  once more and found the node no longer primary: what it did is exactly the events of
  these \<open>k\<close> rounds followed by one sleep, so it broadcast \<open>k\<close> times and not again after the
  last sleep.  The nil request is on the work channel and \<^verbatim>\<open>doSync\<close> returns \<open>cnt\<close>.

  Otherwise it ran \<open>n\<close> whole rounds, each of them finding the node primary and a peer
  still refused, and what it did is exactly the events of these rounds: round \<open>k\<close> is one
  sleep, one broadcast to the peers refused at its start and the deliveries to those of them
  that answered, which it removes.  The peers still refused at the end are those that failed
  in every round, they are none if the loop ended before the tenth round, and \<^verbatim>\<open>doSync\<close>
  returns \<open>cnt\<close> plus their number.
\<close>

theorem refused_retry_phase:
  assumes bc: "broadcastTo e (reply0 e) (metasync_path e) m b smap
                 (CplaneOperation (Timeout (config e)) * 2) NetworkIntraControl AllNodes y
                 = (res, y1)"
      and cf: "count_failures pairs ntid res [] 0 y1 = ((refused, cnt), y2)"
      and rr: "retry_refused e 0 m (metasync_path e) b pairs refused y2 = (r, y3)"
  shows "\<exists>evs n. trace y3 = trace y2 @ evs
           \<and> n = length (filter is_Sleep evs) \<and> n \<le> 10
           \<and> length (filter is_Bcast evs) \<le> n
           \<and> (\<forall>ev \<in> set evs. retry_event e m (metasync_path e) b refused pairs ev)
           \<and> (refused = [] \<longrightarrow> evs = [])
           \<and> (case r of
                 None \<Rightarrow>
                   (\<exists>k<10. n = Suc k
                      \<and> (\<forall>j<k. isPrimary (smap_retry e j) (p_si e))
                      \<and> \<not> isPrimary (smap_retry e k) (p_si e)
                      \<and> (\<forall>j\<le>k. refused_from e 0 refused j \<noteq> [])
                      \<and> evs = retry_trace e m (metasync_path e) b pairs 0 refused k
                               @ [Sleep (CplaneOperation (Timeout (config e)))]
                      \<and> length (filter is_Bcast evs) = k)
                   \<and> (\<exists>j<10. \<not> isPrimary (smap_retry e j) (p_si e))
                   \<and> workCh y3 = workCh (becomeNonPrimary y2)
                   \<and> bcast_steps e smap m b pairs ntid y = (Inr cnt, y3)
               | Some refused' \<Rightarrow>
                   (\<forall>j<n. isPrimary (smap_retry e j) (p_si e))
                   \<and> (\<forall>k<n. \<exists>sid \<in> set refused. \<forall>j<k. reply_retry e j sid \<noteq> None)
                   \<and> set refused' = {sid \<in> set refused. \<forall>j<n. reply_retry e j sid \<noteq> None}
                   \<and> (n < 10 \<longrightarrow> refused' = [])
                   \<and> refused' = refused_from e 0 refused n
                   \<and> (\<forall>k<n. refused_from e 0 refused k \<noteq> [])
                   \<and> evs = retry_trace e m (metasync_path e) b pairs 0 refused n
                   \<and> length (filter is_Bcast evs) = n
                   \<and> workCh y3 = workCh y2
                   \<and> bcast_steps e smap m b pairs ntid y
                        = (Inr (cnt + length refused'), housekeep (smap_end e) y3))"
proof -
  let ?d = "Sleep (CplaneOperation (Timeout (config e)))"
  note eff = retry_refused_effect [OF rr]
  from eff [THEN conjunct1] obtain evs where
      t: "trace y3 = trace y2 @ evs"
    and ev: "\<forall>ev \<in> set evs. retry_event e m (metasync_path e) b refused pairs ev"
    and sl0: "length (filter is_Sleep evs) \<le> 10 - 0"
    and bl: "length (filter is_Bcast evs) \<le> length (filter is_Sleep evs)"
    by (elim exE conjE)
  define n where "n = length (filter is_Sleep evs)"
  have sl: "n \<le> 10" using sl0 by (simp add: n_def)
  have bl': "length (filter is_Bcast evs) \<le> n" using bl by (simp add: n_def)
  have self: "p_si e \<notin> set refused"
  proof -
    from bc have "p_si e \<notin> si ` set res"
      unfolding broadcastTo_def by (rule broadcast_not_self)
    with count_failures_refused [OF cf] show ?thesis by auto
  qed
  have empty: "refused = [] \<longrightarrow> evs = []"
  proof
    assume "refused = []"
    with rr have "y3 = y2" by (simp add: retry_refused.simps)
    with t show "evs = []" by simp
  qed
  have bs: "bcast_steps e smap m b pairs ntid y
              = (case r of None \<Rightarrow> (Inr cnt, y3)
                 | Some refused' \<Rightarrow> (Inr (cnt + length refused'), housekeep (smap_end e) y3))"
    unfolding bcast_steps_def bc cf rr prod.case by (cases r) simp_all
  from retry_refused_exact [OF rr] obtain q where
      q10: "0 + q \<le> max 0 10"
    and qr: "\<forall>k<q. refused_from e 0 refused k \<noteq> [] \<and> isPrimary (smap_retry e (0 + k)) (p_si e)"
    and qc: "case r of
              Some refused' \<Rightarrow>
                refused' = refused_from e 0 refused q
                \<and> (0 + q < 10 \<longrightarrow> refused' = [])
                \<and> trace y3 = trace y2 @ retry_trace e m (metasync_path e) b pairs 0 refused q
            | None \<Rightarrow>
                0 + q < 10 \<and> refused_from e 0 refused q \<noteq> []
                \<and> \<not> isPrimary (smap_retry e (0 + q)) (p_si e)
                \<and> trace y3 = trace y2 @ retry_trace e m (metasync_path e) b pairs 0 refused q
                               @ [?d]"
    by (elim exE conjE)
  have qp: "\<forall>j<q. isPrimary (smap_retry e j) (p_si e)" using qr by simp
  have qn: "\<forall>k<q. refused_from e 0 refused k \<noteq> []" using qr by simp
  have cs: "case r of
          None \<Rightarrow>
            (\<exists>k<10. n = Suc k
               \<and> (\<forall>j<k. isPrimary (smap_retry e j) (p_si e))
               \<and> \<not> isPrimary (smap_retry e k) (p_si e)
               \<and> (\<forall>j\<le>k. refused_from e 0 refused j \<noteq> [])
               \<and> evs = retry_trace e m (metasync_path e) b pairs 0 refused k @ [?d]
               \<and> length (filter is_Bcast evs) = k)
            \<and> (\<exists>j<10. \<not> isPrimary (smap_retry e j) (p_si e))
            \<and> workCh y3 = workCh (becomeNonPrimary y2)
            \<and> bcast_steps e smap m b pairs ntid y = (Inr cnt, y3)
        | Some refused' \<Rightarrow>
            (\<forall>j<n. isPrimary (smap_retry e j) (p_si e))
            \<and> (\<forall>k<n. \<exists>sid \<in> set refused. \<forall>j<k. reply_retry e j sid \<noteq> None)
            \<and> set refused' = {sid \<in> set refused. \<forall>j<n. reply_retry e j sid \<noteq> None}
            \<and> (n < 10 \<longrightarrow> refused' = [])
            \<and> refused' = refused_from e 0 refused n
            \<and> (\<forall>k<n. refused_from e 0 refused k \<noteq> [])
            \<and> evs = retry_trace e m (metasync_path e) b pairs 0 refused n
            \<and> length (filter is_Bcast evs) = n
            \<and> workCh y3 = workCh y2
            \<and> bcast_steps e smap m b pairs ntid y
                 = (Inr (cnt + length refused'), housekeep (smap_end e) y3)"
  proof (cases r)
    case None
    note abc = qc [unfolded None option.case]
    have q9: "q < 10" using abc [THEN conjunct1] by simp
    have rq: "refused_from e 0 refused q \<noteq> []" using abc [THEN conjunct2, THEN conjunct1] .
    have np: "\<not> isPrimary (smap_retry e q) (p_si e)"
      using abc [THEN conjunct2, THEN conjunct2, THEN conjunct1] by simp
    have tq: "trace y3 = trace y2 @ retry_trace e m (metasync_path e) b pairs 0 refused q @ [?d]"
      using abc [THEN conjunct2, THEN conjunct2, THEN conjunct2] .
    have e1: "evs = retry_trace e m (metasync_path e) b pairs 0 refused q @ [?d]"
      using t tq by simp
    have n1: "n = Suc q" unfolding n_def e1 by simp
    have b1: "length (filter is_Bcast evs) = q" unfolding e1 by simp
    have rall: "\<forall>j\<le>q. refused_from e 0 refused j \<noteq> []"
    proof (intro allI impI)
      fix j assume "j \<le> q"
      then have "j < q \<or> j = q" by arith
      then show "refused_from e 0 refused j \<noteq> []" using qn rq by blast
    qed
    have k: "\<exists>k<10. n = Suc k
               \<and> (\<forall>j<k. isPrimary (smap_retry e j) (p_si e))
               \<and> \<not> isPrimary (smap_retry e k) (p_si e)
               \<and> (\<forall>j\<le>k. refused_from e 0 refused j \<noteq> [])
               \<and> evs = retry_trace e m (metasync_path e) b pairs 0 refused k @ [?d]
               \<and> length (filter is_Bcast evs) = k"
      using q9 n1 qp np rall e1 b1 by (intro exI [of _ q] conjI)
    from eff [THEN conjunct2] have fr: "frame (becomeNonPrimary y2) y3
        \<and> (\<exists>j. 0 \<le> j \<and> j < 10 \<and> \<not> isPrimary (smap_retry e j) (p_si e))"
      unfolding None by simp
    have w: "workCh y3 = workCh (becomeNonPrimary y2)"
      using fr [THEN conjunct1] by (simp add: frame_def)
    have j: "\<exists>j<10. \<not> isPrimary (smap_retry e j) (p_si e)"
      using fr [THEN conjunct2] by simp
    have bs': "bcast_steps e smap m b pairs ntid y = (Inr cnt, y3)"
      using bs unfolding None by simp
    show ?thesis unfolding None option.case using k j w bs' by (intro conjI)
  next
    case (Some refused')
    note abc = qc [unfolded Some option.case]
    have ra: "refused' = refused_from e 0 refused q" using abc [THEN conjunct1] .
    have tq: "trace y3 = trace y2 @ retry_trace e m (metasync_path e) b pairs 0 refused q"
      using abc [THEN conjunct2, THEN conjunct2] .
    have e1: "evs = retry_trace e m (metasync_path e) b pairs 0 refused q"
      using t tq by simp
    have nq: "n = q" unfolding n_def e1 by simp
    have b1: "length (filter is_Bcast evs) = n" unfolding e1 nq by simp
    from eff [THEN conjunct2] have "frame y2 y3" unfolding Some by simp
    then have w: "workCh y3 = workCh y2" by (simp add: frame_def)
    from retry_refused_rounds [OF rr [unfolded Some]] obtain k where
        n2: "length (filter is_Sleep (trace y3)) = length (filter is_Sleep (trace y2)) + k"
      and n3: "set refused' = {sid \<in> set refused. sid = p_si e
                  \<or> (\<forall>j. 0 \<le> j \<and> j < 0 + k \<longrightarrow> reply_retry e j sid \<noteq> None)}"
      and n4: "0 + k < 10 \<longrightarrow> refused' = []"
      and n5: "\<forall>j. 0 \<le> j \<and> j < 0 + k \<longrightarrow> isPrimary (smap_retry e j) (p_si e)"
      and n6: "\<forall>k'<k. \<exists>sid \<in> set refused. sid = p_si e
                  \<or> (\<forall>j. 0 \<le> j \<and> j < 0 + k' \<longrightarrow> reply_retry e j sid \<noteq> None)"
      by (elim exE conjE)
    have k: "k = n" using n2 t by (simp add: n_def)
    have c1: "set refused' = {sid \<in> set refused. \<forall>j<n. reply_retry e j sid \<noteq> None}"
      unfolding n3 k using self by auto
    have c2: "n < 10 \<longrightarrow> refused' = []" using n4 k by simp
    have c3: "\<forall>j<n. isPrimary (smap_retry e j) (p_si e)" using n5 k by simp
    have c4: "\<forall>k<n. \<exists>sid \<in> set refused. \<forall>j<k. reply_retry e j sid \<noteq> None"
    proof (intro allI impI)
      fix k' assume "k' < n"
      with n6 k obtain sid where s: "sid \<in> set refused"
        and a: "sid = p_si e
                  \<or> (\<forall>j. 0 \<le> j \<and> j < 0 + k' \<longrightarrow> reply_retry e j sid \<noteq> None)"
        by blast
      from s self have "sid \<noteq> p_si e" by auto
      with a have "\<forall>j<k'. reply_retry e j sid \<noteq> None" by simp
      with s show "\<exists>sid \<in> set refused. \<forall>j<k'. reply_retry e j sid \<noteq> None" by (rule bexI [rotated])
    qed
    have c5: "refused' = refused_from e 0 refused n" using ra nq by simp
    have c6: "\<forall>k<n. refused_from e 0 refused k \<noteq> []" using qn nq by simp
    have c7: "evs = retry_trace e m (metasync_path e) b pairs 0 refused n" using e1 nq by simp
    show ?thesis unfolding Some option.case
      using c3 c4 c1 c2 c5 c6 c7 b1 w bs [unfolded Some option.case]
      by (intro conjI)
  qed
  show ?thesis
    by (rule exI [of _ evs], rule exI [of _ n]) (intro conjI t n_def sl bl' ev empty cs)
qed

theorem refused_retry_phase_witness:
  "(broadcastTo ex_env_refused (reply0 ex_env_refused) (metasync_path ex_env_refused) MethodPut
      (MsgBody None) ex_smap (CplaneOperation (Timeout (config ex_env_refused)) * 2)
      NetworkIntraControl AllNodes newmetasyncer
     = ([\<lparr>si = ''T1'', err = Some ErrConnectionRefused\<rparr>], ex_refused_y1)
   \<and> count_failures [ex_pair] '''' [\<lparr>si = ''T1'', err = Some ErrConnectionRefused\<rparr>] [] 0
        ex_refused_y1 = (([''T1''], 0), ex_refused_y1)
   \<and> retry_refused ex_env_refused 0 MethodPut (metasync_path ex_env_refused) (MsgBody None)
        [ex_pair] [''T1''] ex_refused_y1 = (Some [], ex_refused_y3)
   \<and> bcast_steps ex_env_refused ex_smap MethodPut (MsgBody None) [ex_pair] '''' newmetasyncer
        = (Inr 0, ex_refused_y3)
   \<and> length (filter is_Sleep (trace ex_refused_y3)) = 1)
   \<and> (broadcastTo ex_env_bail (reply0 ex_env_bail) (metasync_path ex_env_bail) MethodPut
      (MsgBody None) ex_smap (CplaneOperation (Timeout (config ex_env_bail)) * 2)
      NetworkIntraControl AllNodes newmetasyncer
     = ([\<lparr>si = ''T1'', err = Some ErrConnectionRefused\<rparr>], ex_refused_y1)
   \<and> count_failures [ex_pair] '''' [\<lparr>si = ''T1'', err = Some ErrConnectionRefused\<rparr>] [] 0
        ex_refused_y1 = (([''T1''], 0), ex_refused_y1)
   \<and> retry_refused ex_env_bail 0 MethodPut (metasync_path ex_env_bail) (MsgBody None)
        [ex_pair] [''T1''] ex_refused_y1 = (None, ex_bail_y3)
   \<and> bcast_steps ex_env_bail ex_smap MethodPut (MsgBody None) [ex_pair] '''' newmetasyncer
        = (Inr 0, ex_bail_y3)
   \<and> length (filter is_Sleep (trace ex_bail_y3)) = 2
   \<and> length (filter is_Bcast (trace ex_bail_y3)) = 2)"
proof -
  have some: "broadcastTo ex_env_refused (reply0 ex_env_refused) (metasync_path ex_env_refused) MethodPut
      (MsgBody None) ex_smap (CplaneOperation (Timeout (config ex_env_refused)) * 2)
      NetworkIntraControl AllNodes newmetasyncer
     = ([\<lparr>si = ''T1'', err = Some ErrConnectionRefused\<rparr>], ex_refused_y1)
   \<and> count_failures [ex_pair] '''' [\<lparr>si = ''T1'', err = Some ErrConnectionRefused\<rparr>] [] 0
        ex_refused_y1 = (([''T1''], 0), ex_refused_y1)
   \<and> retry_refused ex_env_refused 0 MethodPut (metasync_path ex_env_refused) (MsgBody None)
        [ex_pair] [''T1''] ex_refused_y1 = (Some [], ex_refused_y3)
   \<and> bcast_steps ex_env_refused ex_smap MethodPut (MsgBody None) [ex_pair] '''' newmetasyncer
        = (Inr 0, ex_refused_y3)
   \<and> length (filter is_Sleep (trace ex_refused_y3)) = 1"
  proof -
    have bc: "broadcastTo ex_env_refused (reply0 ex_env_refused) (metasync_path ex_env_refused)
        MethodPut (MsgBody None) ex_smap (CplaneOperation (Timeout (config ex_env_refused)) * 2)
        NetworkIntraControl AllNodes newmetasyncer
       = ([\<lparr>si = ''T1'', err = Some ErrConnectionRefused\<rparr>], ex_refused_y1)"
      by (simp add: ms_eval ex_defs ex_env_refused_def ex_refused_y1_def)
    have cf: "count_failures [ex_pair] '''' [\<lparr>si = ''T1'', err = Some ErrConnectionRefused\<rparr>] [] 0
          ex_refused_y1 = (([''T1''], 0), ex_refused_y1)"
      by (simp add: ms_eval)
    have rr: "retry_refused ex_env_refused 0 MethodPut (metasync_path ex_env_refused) (MsgBody None)
          [ex_pair] [''T1''] ex_refused_y1 = (Some [], ex_refused_y3)"
      by (simp add: ms_eval ex_defs ex_env_refused_def ex_refused_y1_def ex_refused_y3_def)
    have hk: "housekeep (smap_end ex_env_refused) ex_refused_y3 = ex_refused_y3"
      by (simp add: ms_eval ex_defs ex_env_refused_def ex_refused_y3_def)
    have sl: "length (filter is_Sleep (trace ex_refused_y3)) = 1"
      by (simp add: ms_eval ex_refused_y3_def ex_refused_y1_def)
    from refused_retry_phase [OF bc cf rr]
    have "bcast_steps ex_env_refused ex_smap MethodPut (MsgBody None) [ex_pair] '''' newmetasyncer
          = (Inr (0 + length ([] :: daemonID list)), housekeep (smap_end ex_env_refused) ex_refused_y3)"
      by (elim exE conjE) simp
    with bc cf rr hk sl show ?thesis by simp
  qed
  have none: "broadcastTo ex_env_bail (reply0 ex_env_bail) (metasync_path ex_env_bail) MethodPut
      (MsgBody None) ex_smap (CplaneOperation (Timeout (config ex_env_bail)) * 2)
      NetworkIntraControl AllNodes newmetasyncer
     = ([\<lparr>si = ''T1'', err = Some ErrConnectionRefused\<rparr>], ex_refused_y1)
   \<and> count_failures [ex_pair] '''' [\<lparr>si = ''T1'', err = Some ErrConnectionRefused\<rparr>] [] 0
        ex_refused_y1 = (([''T1''], 0), ex_refused_y1)
   \<and> retry_refused ex_env_bail 0 MethodPut (metasync_path ex_env_bail) (MsgBody None)
        [ex_pair] [''T1''] ex_refused_y1 = (None, ex_bail_y3)
   \<and> bcast_steps ex_env_bail ex_smap MethodPut (MsgBody None) [ex_pair] '''' newmetasyncer
        = (Inr 0, ex_bail_y3)
   \<and> length (filter is_Sleep (trace ex_bail_y3)) = 2
   \<and> length (filter is_Bcast (trace ex_bail_y3)) = 2"
  proof -
    have bc: "broadcastTo ex_env_bail (reply0 ex_env_bail) (metasync_path ex_env_bail)
        MethodPut (MsgBody None) ex_smap (CplaneOperation (Timeout (config ex_env_bail)) * 2)
        NetworkIntraControl AllNodes newmetasyncer
       = ([\<lparr>si = ''T1'', err = Some ErrConnectionRefused\<rparr>], ex_refused_y1)"
      by (simp add: ms_eval ex_defs ex_env_bail_def ex_refused_y1_def)
    have cf: "count_failures [ex_pair] '''' [\<lparr>si = ''T1'', err = Some ErrConnectionRefused\<rparr>] [] 0
          ex_refused_y1 = (([''T1''], 0), ex_refused_y1)"
      by (simp add: ms_eval)
    have rr: "retry_refused ex_env_bail 0 MethodPut (metasync_path ex_env_bail) (MsgBody None)
          [ex_pair] [''T1''] ex_refused_y1 = (None, ex_bail_y3)"
      by (simp add: ms_eval ex_defs ex_env_bail_def ex_smap_lost_def ex_refused_y1_def
            ex_bail_y3_def)
    have sl: "length (filter is_Sleep (trace ex_bail_y3)) = 2
              \<and> length (filter is_Bcast (trace ex_bail_y3)) = 2"
      by (simp add: ms_eval ex_bail_y3_def ex_refused_y1_def)
    from refused_retry_phase [OF bc cf rr]
    have "bcast_steps ex_env_bail ex_smap MethodPut (MsgBody None) [ex_pair] '''' newmetasyncer
          = (Inr 0, ex_bail_y3)"
      by (elim exE conjE) simp
    with bc cf rr sl show ?thesis by simp
  qed
  from some none show ?thesis by (rule conjI)
qed
section \<open>A synchronization without failures\<close>

text \<open>
  C1 fails where the claim itself points: when the node loses primacy during the retry of
  refused peers, \<^verbatim>\<open>doSync\<close> returns the failures counted so far.  Here the only target
  refused the connection, so that count is 0, and the target, still in the cluster map, has
  been delivered nothing.
\<close>

theorem doSync_zero_not_delivered_counterexample:
  "isPrimary (smap0 ex_env_lost) (p_si ex_env_lost)
   \<and> fst (doSync ex_env_lost [ex_pair] None newmetasyncer) = Inr 0
   \<and> containsID (smap_retry ex_env_lost 0) ''T1''
   \<and> delivered (snd (doSync ex_env_lost [ex_pair] None newmetasyncer)) ''T1'' bucketmdtag = None
   \<and> trace (snd (doSync ex_env_lost [ex_pair] None newmetasyncer))
       = [Bcast ex_bcast, Sleep 1000000000]
   \<and> workCh (snd (doSync ex_env_lost [ex_pair] None newmetasyncer))
       = workCh (becomeNonPrimary newmetasyncer)"
  by (simp add: ms_eval ex_defs ex_env_lost_def ex_smap_lost_def ex_bcast_def delivered_def)

text \<open>
  C1, as the code has it.  Let \<^verbatim>\<open>doSync\<close> return 0 without having called
  \<^verbatim>\<open>becomeNonPrimary\<close> (the work channel is as it was), and let the pairs that passed the
  filter (\<open>toSend\<close>) have pairwise distinct tags.  Then every peer other than the node
  itself that is in the cluster map \<^verbatim>\<open>doSync\<close> broadcast to, and still in the cluster map
  read before housekeeping, has each of these pairs recorded at the pair's version.
\<close>

theorem zero_failures_delivered:
  assumes ds: "doSync e pairs msgInt y = (Inr 0, y')"
      and fp: "filter_pairs (smap0 e) y (countNewMembers y (smap0 e)) pairs = Inr toSend"
      and dist: "distinct (map ptag toSend)"
      and nb: "workCh y' = workCh y"
      and sid: "sid \<in> set (Pmap (smap0 e) @ Tmap (smap0 e))"
      and ns: "sid \<noteq> p_si e"
      and ce: "containsID (smap_end e) sid"
  shows "\<forall>p \<in> set toSend. delivered y' sid (ptag p) = Some (pver p)"
proof (cases "toSend = []")
  case True
  then show ?thesis by simp
next
  case ne: False
  from doSync_sent_cases [OF ds fp ne] obtain payload ntid y1 where
      bp: "build_payload e toSend [] '''' y = (Inr (payload, ntid), y1)"
    and bs: "bcast_steps e (smap0 e) MethodPut (PayloadBody payload) toSend ntid y1 = (Inr 0, y')"
    by blast
  have w1: "workCh y1 = workCh y" using build_payload_effect [OF bp] by simp
  from bs have "has_all y' sid toSend"
  proof (cases rule: bcast_steps_cases)
    case (bailed res y1' refused y2)
    have "workCh y1' = workCh y1"
      using bailed(1) by (simp add: broadcastTo_def broadcast_def) auto
    moreover have "workCh y2 = workCh y1'"
      using count_failures_effect [OF bailed(2)] by (simp add: frame_def)
    moreover have "workCh y' = workCh (becomeNonPrimary y2)"
      using retry_refused_effect [OF bailed(3)] by (simp add: frame_def)
    ultimately have "workCh y' \<noteq> workCh y" using w1 by (simp add: becomeNonPrimary_def)
    with nb show ?thesis by simp
  next
    case (completed res y1' refused cnt y2 refused' y3)
    from completed(4) have cnt: "cnt = 0" and r': "refused' = []" by simp_all
    have "si ` set res = {s \<in> set (Pmap (smap0 e) @ Tmap (smap0 e)). s \<noteq> p_si e}"
      using broadcast_si [OF completed(1) [unfolded broadcastTo_def]] by simp
    with sid ns have "sid \<in> si ` set res" by simp
    then obtain r where r: "r \<in> set res" "si r = sid" by (auto simp: image_iff)
    note cf = count_failures_has_all [OF dist ne completed(2)]
    from cf cnt r have "has_all y2 sid toSend \<or> sid \<in> set refused" by auto
    moreover note rr = retry_refused_has_all [OF dist completed(3)]
    ultimately have "has_all y3 sid toSend" using r' by auto
    then show ?thesis unfolding completed(5) using ce by (rule has_all_housekeep)
  qed
  then show ?thesis by (simp add: has_all_def)
qed

theorem zero_failures_delivered_witness:
  "doSync ex_env_refused [ex_pair] None newmetasyncer = (Inr 0, ex_refused_done)
   \<and> filter_pairs (smap0 ex_env_refused) newmetasyncer
        (countNewMembers newmetasyncer (smap0 ex_env_refused)) [ex_pair] = Inr [ex_pair]
   \<and> workCh ex_refused_done = workCh newmetasyncer
   \<and> containsID (smap_end ex_env_refused) ''T1''
   \<and> delivered ex_refused_done ''T1'' bucketmdtag = Some 1"
proof -
  have ds: "doSync ex_env_refused [ex_pair] None newmetasyncer = (Inr 0, ex_refused_done)"
    by (simp add: ex_refused_done_def prod_eq_iff) (simp add: ms_eval ex_defs ex_env_refused_def)
  have fp: "filter_pairs (smap0 ex_env_refused) newmetasyncer
        (countNewMembers newmetasyncer (smap0 ex_env_refused)) [ex_pair] = Inr [ex_pair]"
    by (simp add: ms_eval ex_defs ex_env_refused_def)
  have dist: "distinct (map ptag [ex_pair])" by simp
  have nb: "workCh ex_refused_done = workCh newmetasyncer"
    by (simp add: ex_refused_done_def) (simp add: ms_eval ex_defs ex_env_refused_def)
  have sid: "''T1'' \<in> set (Pmap (smap0 ex_env_refused) @ Tmap (smap0 ex_env_refused))"
    by (simp add: ex_defs ex_env_refused_def)
  have ns: "''T1'' \<noteq> p_si ex_env_refused"
    by (simp add: ex_defs ex_env_refused_def)
  have ce: "containsID (smap_end ex_env_refused) ''T1''"
    by (simp add: containsID_def ex_defs ex_env_refused_def)
  from zero_failures_delivered [OF ds fp dist nb sid ns ce]
  have "delivered ex_refused_done ''T1'' bucketmdtag = Some 1"
    by (simp add: ex_defs)
  with ds fp nb ce show ?thesis by simp
qed

section \<open>Pairs tagged as the cluster map\<close>

text \<open>
  C3 fails in its second half: \<^verbatim>\<open>doSync\<close> substitutes nothing.  For a cluster map older than
  the current one it logs a warning and goes on with the pair it was given: here version 1
  is published and its serialization is what the payload carries, while the current
  cluster map is version 2.
\<close>

theorem stale_smap_broadcast_counterexample:
  "revs_tag (pair_revs ex_stale_pair) = smaptag
   \<and> revs_version (pair_revs ex_stale_pair) < Version (smap0 ex_env)
   \<and> doSync ex_env [ex_stale_pair] None newmetasyncer
       = (Inr 0,
          newmetasyncer\<lparr>revsmap := [(''T1'', [smaptag \<mapsto> 1])],
            last_synced := [(smaptag, ex_stale_smap)],
            lastclone := [smaptag \<mapsto> ''smap-v1''],
            trace := [Bcast \<lparr>req = \<lparr>httpMethod = MethodPut, path = ''/v1/metasync'',
                                     body = PayloadBody [(smaptag, RevsJSON ''smap-v1''),
                                              (smaptag @ actiontag, ActionJSON ex_msg)]\<rparr>,
                              network = NetworkIntraControl, timeout = 2000000000,
                              nodes = [[''P0''], [''T1'']]\<rparr>,
                      Delivered ''T1'' smaptag 1]\<rparr>)"
  by (simp add: ms_eval ex_defs ex_stale_pair_def ex_stale_smap_def)

text \<open>
  C3, as the code has it.  For a pair of the request tagged as the cluster map: if its
  version exceeds the current cluster map's, \<^verbatim>\<open>doSync\<close> aborts in the state it started in.
  If its version is less, it is the only pair so tagged, the duplicate filter lets it pass
  and \<^verbatim>\<open>doSync\<close> returns, then this very artifact is what is published, the payload
  of the first broadcast carries its serialization under the tag, and the current cluster
  map serves as the list of recipients.
\<close>

theorem smap_pair_newer_fatal_stale_sent:
  assumes p: "p \<in> set pairs" and tag: "ptag p = smaptag"
  shows "(pver p > Version (smap0 e) \<longrightarrow> (\<exists>f. doSync e pairs msgInt y = (Inl f, y)))
       \<and> (pver p < Version (smap0 e)
            \<and> (\<forall>q \<in> set pairs. ptag q = smaptag \<longrightarrow> q = p)
            \<and> (lversion y smaptag < pver p
                \<or> (lversion y smaptag = pver p \<and> countNewMembers y (smap0 e) \<noteq> 0))
            \<and> doSync e pairs msgInt y = (Inr n, y')
          \<longrightarrow> map_of (last_synced y') smaptag = Some (pair_revs p)
              \<and> (\<exists>payload js evs.
                    revs_marshal (pair_revs p) = Some js
                    \<and> map_of payload smaptag = Some (RevsJSON js)
                    \<and> trace y' = trace y @
                        Bcast (first_bcast e (smap0 e) MethodPut (PayloadBody payload)) # evs))"
proof (rule conjI; rule impI)
  assume "pver p > Version (smap0 e)"
  with p tag show "\<exists>f. doSync e pairs msgInt y = (Inl f, y)"
    by (rule doSync_newer_smap_aborts)
next
  assume a: "pver p < Version (smap0 e)
            \<and> (\<forall>q \<in> set pairs. ptag q = smaptag \<longrightarrow> q = p)
            \<and> (lversion y smaptag < pver p
                \<or> (lversion y smaptag = pver p \<and> countNewMembers y (smap0 e) \<noteq> 0))
            \<and> doSync e pairs msgInt y = (Inr n, y')"
  then have only: "\<forall>q \<in> set pairs. ptag q = smaptag \<longrightarrow> q = p"
    and surv: "lversion y (ptag p) < pver p
                \<or> (lversion y (ptag p) = pver p \<and> countNewMembers y (smap0 e) \<noteq> 0)"
    and ds: "doSync e pairs msgInt y = (Inr n, y')" by (simp_all add: tag)
  from p have ne: "pairs \<noteq> []" by auto
  from doSync_filter_ok [OF ds ne] obtain toSend where
    fp: "filter_pairs (smap0 e) y (countNewMembers y (smap0 e)) pairs = Inr toSend" by blast
  have pin: "p \<in> set toSend" by (rule filter_pairs_keeps [OF fp p surv])
  then have tne: "toSend \<noteq> []" by auto
  from doSync_sent_cases [OF ds fp tne] obtain payload ntid y1 where
      bp: "build_payload e toSend [] '''' y = (Inr (payload, ntid), y1)"
    and bs: "bcast_steps e (smap0 e) MethodPut (PayloadBody payload) toSend ntid y1 = (Inr n, y')"
    by blast
  have only': "\<forall>q \<in> set toSend. ptag q = ptag p \<longrightarrow> q = p"
    using only filter_pairs_subset [OF fp] by (auto simp: tag)
  have noact: "\<forall>q \<in> set toSend. ptag q @ actiontag \<noteq> ptag p"
    by (simp add: tag action_key_not_smaptag)
  from build_payload_tag [OF bp pin only' noact] obtain js where
      js: "revs_marshal (pair_revs p) = Some js"
    and pl: "map_of payload smaptag = Some (RevsJSON js)"
    and ls: "map_of (last_synced y1) smaptag = Some (pair_revs p)" by (auto simp: tag)
  from bcast_steps_effect [OF bs] obtain evs where
      l': "last_synced y' = last_synced y1"
    and t': "trace y' = trace y1 @
               Bcast (first_bcast e (smap0 e) MethodPut (PayloadBody payload)) # evs" by blast
  have t1: "trace y1 = trace y" using build_payload_effect [OF bp] by simp
  show "map_of (last_synced y') smaptag = Some (pair_revs p)
              \<and> (\<exists>payload js evs.
                    revs_marshal (pair_revs p) = Some js
                    \<and> map_of payload smaptag = Some (RevsJSON js)
                    \<and> trace y' = trace y @
                        Bcast (first_bcast e (smap0 e) MethodPut (PayloadBody payload)) # evs)"
    using js pl ls l' t' t1 by auto
qed

theorem smap_pair_newer_fatal_stale_sent_witness:
  "ex_newer_pair \<in> set [ex_newer_pair] \<and> ptag ex_newer_pair = smaptag
   \<and> pver ex_newer_pair > Version (smap0 ex_env)
   \<and> fst (doSync ex_env [ex_newer_pair] None newmetasyncer) = Inl (SmapNewer 5 2)
   \<and> ex_stale_pair \<in> set [ex_stale_pair] \<and> ptag ex_stale_pair = smaptag
   \<and> pver ex_stale_pair < Version (smap0 ex_env)
   \<and> lversion newmetasyncer smaptag < pver ex_stale_pair
   \<and> doSync ex_env [ex_stale_pair] None newmetasyncer = (Inr 0, ex_stale_done)
   \<and> map_of (last_synced ex_stale_done) smaptag = Some (pair_revs ex_stale_pair)"
proof -
  have n1: "ex_newer_pair \<in> set [ex_newer_pair]" by simp
  have n2: "ptag ex_newer_pair = smaptag" by (simp add: ex_newer_pair_def)
  have n3: "pver ex_newer_pair > Version (smap0 ex_env)"
    by (simp add: ex_newer_pair_def ex_defs)
  have n4: "fst (doSync ex_env [ex_newer_pair] None newmetasyncer) = Inl (SmapNewer 5 2)"
    using smap_pair_newer_fatal_stale_sent [OF n1 n2, of ex_env None newmetasyncer] n3
    by (simp add: ms_eval ex_defs ex_newer_pair_def)
  have s1: "ex_stale_pair \<in> set [ex_stale_pair]" by simp
  have s2: "ptag ex_stale_pair = smaptag" by (simp add: ex_stale_pair_def ex_stale_smap_def)
  have s3: "pver ex_stale_pair < Version (smap0 ex_env)"
    by (simp add: ex_stale_pair_def ex_stale_smap_def ex_defs)
  have s4: "\<forall>q \<in> set [ex_stale_pair]. ptag q = smaptag \<longrightarrow> q = ex_stale_pair" by simp
  have s5: "lversion newmetasyncer smaptag < pver ex_stale_pair"
    by (simp add: ms_eval ex_stale_pair_def ex_stale_smap_def)
  have s6: "doSync ex_env [ex_stale_pair] None newmetasyncer = (Inr 0, ex_stale_done)"
    by (simp add: ex_stale_done_def prod_eq_iff)
       (simp add: ms_eval ex_defs ex_stale_pair_def ex_stale_smap_def)
  from smap_pair_newer_fatal_stale_sent [OF s1 s2, of ex_env None newmetasyncer 0 ex_stale_done]
    s3 s4 s5 s6
  have "map_of (last_synced ex_stale_done) smaptag = Some (pair_revs ex_stale_pair)"
    by blast
  with n1 n2 n3 n4 s1 s2 s3 s5 s6 show ?thesis by simp
qed

section \<open>The versions delivered to a peer\<close>

text \<open>
  C2 fails for a request that carries one tag twice, the older version last: all pairs
  pass the filter, which compares them with what was published before the request, and
  \<^verbatim>\<open>syncDone\<close> writes them in order, version 3 and then version 2.
\<close>

theorem delivered_versions_decrease_counterexample:
  "fst (doSync ex_env ex_pairs32 None newmetasyncer) = Inr 0
   \<and> delivered_versions ''T1'' bucketmdtag
        (trace (snd (doSync ex_env ex_pairs32 None newmetasyncer))) = [3, 2]
   \<and> \<not> sorted [3, 2 :: int]"
  by (simp add: ms_eval ex_defs ex_pairs32_def ex_bmd3_def ex_bmd2_def)

text \<open>
  C2, as the code has it.  Start from the new metasyncer and run any sequence of
  \<^verbatim>\<open>doSync\<close> and \<^verbatim>\<open>handlePending\<close> (the retries of \<^verbatim>\<open>handleRefused\<close> are part of
  \<^verbatim>\<open>doSync\<close>), each in any world, where every request has pairwise distinct tags.  Then for
  every peer and every tag, the versions written to the delivery state, in the order they
  were written, never decrease.
\<close>

theorem delivered_versions_monotone:
  assumes "\<forall>op \<in> set ops. distinct_tags op"
  shows "sorted (delivered_versions sid tag (trace (run_ops newmetasyncer ops)))"
proof -
  have "mono_writes (run_ops newmetasyncer ops)"
    using run_ops_inv [of newmetasyncer ops] newmetasyncer_inv assms by simp
  then show ?thesis by (simp add: mono_writes_def)
qed

theorem delivered_versions_monotone_witness:
  "distinct_tags (OpSync ex_env [ex_pair] None) \<and> distinct_tags (OpPending ex_env)
   \<and> distinct_tags (OpSync ex_env [ex_pair2] None)
   \<and> delivered_versions ''T1'' bucketmdtag (trace (run_ops newmetasyncer ex_ops)) = [1, 2]
   \<and> sorted (delivered_versions ''T1'' bucketmdtag (trace (run_ops newmetasyncer ex_ops)))"
proof -
  have h: "\<forall>op \<in> set ex_ops. distinct_tags op" by (simp add: ex_ops_def)
  have v: "delivered_versions ''T1'' bucketmdtag (trace (run_ops newmetasyncer ex_ops)) = [1, 2]"
    by (simp add: ex_ops_def ms_eval pending_eval ex_defs ex_pair2_def ex_bmd2_def)
  from delivered_versions_monotone [OF h, of "''T1''" bucketmdtag] v show ?thesis by simp
qed

section \<open>The retry timer\<close>

text \<open>
  C6 fails in its first part: the timer is armed on failures of the request at hand, not
  on peers that are not in sync.  The bucket metadata is synchronized with the target
  \<open>T1\<close>; then \<open>T2\<close> joins and the new cluster map is synchronized with both, every call
  succeeding.  \<open>T2\<close> has the cluster map and has never been sent the bucket metadata, yet
  the timer is not armed.
\<close>

theorem retry_timer_not_armed_counterexample:
  "Run_work ex_env3 (snd (sync ex_env3 False [ex_reg_pair]
       (snd (Run_work ex_env (snd (sync ex_env False [ex_pair] newmetasyncer))))))
     = (Inr (), ex_after_join)
   \<and> ''T2'' \<in> set (Tmap (smap0 ex_env3)) \<and> ''T2'' \<noteq> p_si ex_env3
   \<and> map_of (last_synced ex_after_join) bucketmdtag = Some ex_bmd
   \<and> delivered ex_after_join ''T2'' bucketmdtag = None
   \<and> delivered ex_after_join ''T2'' smaptag = Some 3
   \<and> retryTimer ex_after_join = None \<and> timerStopped ex_after_join
   \<and> workCh ex_after_join = []"
  by (simp add: ex_after_join_def run_eval ms_eval ex_defs ex_env3_def ex_smap3_def
        ex_reg_pair_def ex_smap3_revs_def ex_reg_msg_def delivered_def)

text \<open>
  C6, as the code has it.  When the loop has run \<^verbatim>\<open>doSync\<close> on a request and it returned
  \<open>cnt\<close>, the timer is armed for \<^verbatim>\<open>retry-sync-time\<close> exactly if \<open>cnt\<close> is positive, the
  request carried pairs and the timer was stopped; otherwise it is left as it was.

  When the timer fires on the primary and its handler returns, the pending peers are the
  nodes of the cluster map that are out of sync: those without an entry in the delivery
  state and those whose entry differs from the published version for some tag.  If there
  are none, nothing is broadcast and the timer stays stopped.  Otherwise \<^verbatim>\<open>handlePending\<close>
  broadcasts once, with \<^verbatim>\<open>PUT\<close> and timeout \<^verbatim>\<open>cplane-operation\<close>, to exactly the pending peers;
  the payload has every published tag and, when the published tags are plain, it is the full
  published set and nothing else: under every tag the serialization of the published
  object, under the tag's action key the handler's message, and no other key.  For every
  pending peer that answers without error every published version is written to the delivery
  state, and the timer is armed again exactly if some call failed.

  When the timer fires on a node that is not primary, nothing is broadcast, the nil request
  is put on the work channel and the timer stays stopped.
\<close>

theorem retry_timer_arming_and_pending:
  "(workCh y = rq # ch \<and> \<not> isNil rq
      \<and> doSync e (req_pairs rq) (req_msgInt rq) (y\<lparr>workCh := ch\<rparr>) = (Inr cnt, y1)
    \<longrightarrow> (\<exists>y2. Run_work e y = (Inr (), y2)
           \<and> retryTimer y2 = (if cnt > 0 \<and> timerStopped y \<and> req_pairs rq \<noteq> []
                               then Some (RetrySyncTime (Periodic (config e))) else retryTimer y)
           \<and> timerStopped y2 = (timerStopped y \<and> \<not> (cnt > 0 \<and> req_pairs rq \<noteq> []))))
   \<and> (retryTimer y = Some d \<and> isPrimary (smap0 e) (p_si e) \<and> Run_timer e y = (Inr (), y')
      \<longrightarrow>
      (if \<forall>sid \<in> set (Tmap (smap0 e) @ Pmap (smap0 e)). \<not> out_of_sync y sid
       then trace y' = trace y \<and> retryTimer y' = None \<and> timerStopped y'
       else \<exists>pend payload.
              distinct pend
            \<and> set pend = {sid \<in> set (Tmap (smap0 e) @ Pmap (smap0 e)). out_of_sync y sid}
            \<and> trace y' = trace y @ Bcast (pending_bcast e payload pend)
                            # pending_deliveries e pend (last_synced y)
            \<and> fst ` set (last_synced y) \<subseteq> fst ` set payload
            \<and> (published_ok y \<and> plain_tags (map fst (last_synced y)) \<longrightarrow>
                  distinct (map fst payload)
                \<and> (\<forall>(t, r) \<in> set (last_synced y). \<exists>b. revs_marshal r = Some b
                      \<and> map_of payload t = Some (RevsJSON b)
                      \<and> map_of payload (t @ actiontag)
                          = Some (ActionJSON (newActionMsgInternalStr e
                                                ''metasync: handle-pending'' (smap0 e))))
                \<and> fst ` set payload = fst ` set (last_synced y)
                                       \<union> (\<lambda>t. t @ actiontag) ` fst ` set (last_synced y))
            \<and> (published_ok y \<longrightarrow>
                 (\<forall>sid \<in> set pend. sid \<noteq> p_si e \<and> reply0 e sid = None \<longrightarrow>
                    (\<forall>(t, r) \<in> set (last_synced y). delivered y' sid t = Some (revs_version r))))
            \<and> retryTimer y' = (if \<exists>sid \<in> set pend. sid \<noteq> p_si e \<and> reply0 e sid \<noteq> None
                                then Some (RetrySyncTime (Periodic (config e))) else None)
            \<and> timerStopped y' = (\<not> (\<exists>sid \<in> set pend. sid \<noteq> p_si e \<and> reply0 e sid \<noteq> None))))
   \<and> (retryTimer y = Some d \<and> \<not> isPrimary (smap0 e) (p_si e)
      \<longrightarrow> Run_timer e y
            = (Inr (), (becomeNonPrimary y)\<lparr>retryTimer := None, timerStopped := True\<rparr>))"
proof (intro conjI; rule impI)
  assume "workCh y = rq # ch \<and> \<not> isNil rq
      \<and> doSync e (req_pairs rq) (req_msgInt rq) (y\<lparr>workCh := ch\<rparr>) = (Inr cnt, y1)"
  then show "\<exists>y2. Run_work e y = (Inr (), y2)
           \<and> retryTimer y2 = (if cnt > 0 \<and> timerStopped y \<and> req_pairs rq \<noteq> []
                               then Some (RetrySyncTime (Periodic (config e))) else retryTimer y)
           \<and> timerStopped y2 = (timerStopped y \<and> \<not> (cnt > 0 \<and> req_pairs rq \<noteq> []))"
    by (elim conjE) (rule Run_work_timer)
next
  assume "retryTimer y = Some d \<and> isPrimary (smap0 e) (p_si e) \<and> Run_timer e y = (Inr (), y')"
  then show "(if \<forall>sid \<in> set (Tmap (smap0 e) @ Pmap (smap0 e)). \<not> out_of_sync y sid
    then trace y' = trace y \<and> retryTimer y' = None \<and> timerStopped y'
    else \<exists>pend payload.
           distinct pend
         \<and> set pend = {sid \<in> set (Tmap (smap0 e) @ Pmap (smap0 e)). out_of_sync y sid}
         \<and> trace y' = trace y @ Bcast (pending_bcast e payload pend)
                         # pending_deliveries e pend (last_synced y)
         \<and> fst ` set (last_synced y) \<subseteq> fst ` set payload
         \<and> (published_ok y \<and> plain_tags (map fst (last_synced y)) \<longrightarrow>
               distinct (map fst payload)
             \<and> (\<forall>(t, r) \<in> set (last_synced y). \<exists>b. revs_marshal r = Some b
                   \<and> map_of payload t = Some (RevsJSON b)
                   \<and> map_of payload (t @ actiontag)
                       = Some (ActionJSON (newActionMsgInternalStr e
                                             ''metasync: handle-pending'' (smap0 e))))
             \<and> fst ` set payload = fst ` set (last_synced y)
                                    \<union> (\<lambda>t. t @ actiontag) ` fst ` set (last_synced y))
         \<and> (published_ok y \<longrightarrow>
              (\<forall>sid \<in> set pend. sid \<noteq> p_si e \<and> reply0 e sid = None \<longrightarrow>
                 (\<forall>(t, r) \<in> set (last_synced y). delivered y' sid t = Some (revs_version r))))
         \<and> retryTimer y' = (if \<exists>sid \<in> set pend. sid \<noteq> p_si e \<and> reply0 e sid \<noteq> None
                             then Some (RetrySyncTime (Periodic (config e))) else None)
         \<and> timerStopped y' = (\<not> (\<exists>sid \<in> set pend. sid \<noteq> p_si e \<and> reply0 e sid \<noteq> None)))"
    by (elim conjE) (rule Run_timer_full)
next
  assume "retryTimer y = Some d \<and> \<not> isPrimary (smap0 e) (p_si e)"
  then show "Run_timer e y
            = (Inr (), (becomeNonPrimary y)\<lparr>retryTimer := None, timerStopped := True\<rparr>)"
    by (simp add: Run_timer_def handlePending_def pending_def becomeNonPrimary_def)
qed

theorem retry_timer_arming_and_pending_witness:
  "workCh ex_queued = [ex_rq] \<and> \<not> isNil ex_rq
   \<and> fst (doSync ex_env_fail (req_pairs ex_rq) (req_msgInt ex_rq) (ex_queued\<lparr>workCh := []\<rparr>)) = Inr 1
   \<and> Run_work ex_env_fail ex_queued = (Inr (), ex_failed)
   \<and> retryTimer ex_failed = Some 2000000000 \<and> \<not> timerStopped ex_failed
   \<and> isPrimary (smap0 ex_env) (p_si ex_env)
   \<and> Run_timer ex_env ex_failed = (Inr (), ex_retried)
   \<and> published_ok ex_failed \<and> plain_tags (map fst (last_synced ex_failed))
   \<and> out_of_sync ex_failed ''T1''
   \<and> delivered ex_retried ''T1'' bucketmdtag = Some 1
   \<and> retryTimer ex_retried = None \<and> timerStopped ex_retried"
proof -
  have q: "workCh ex_queued = [ex_rq]" by (simp add: ex_queued_def)
  have nn: "\<not> isNil ex_rq" by (simp add: ex_rq_def isNil_def)
  have ts: "timerStopped ex_queued" by (simp add: ex_queued_def newmetasyncer_def)
  have ds: "doSync ex_env_fail (req_pairs ex_rq) (req_msgInt ex_rq) (ex_queued\<lparr>workCh := []\<rparr>)
              = (Inr 1, ex_failed\<lparr>retryTimer := None, timerStopped := True\<rparr>)"
    by (simp add: ex_queued_def ex_failed_def ex_rq_def ms_eval ex_defs ex_env_fail_def
          ex_bcast_def)
  from retry_timer_arming_and_pending [THEN conjunct1, rule_format, OF conjI [OF q conjI [OF nn ds]]]
  obtain y2 where rw: "Run_work ex_env_fail ex_queued = (Inr (), y2)"
    and rt2: "retryTimer y2 = (if (1::nat) > 0 \<and> timerStopped ex_queued \<and> req_pairs ex_rq \<noteq> []
               then Some (RetrySyncTime (Periodic (config ex_env_fail))) else retryTimer ex_queued)"
    and st2: "timerStopped y2 = (timerStopped ex_queued \<and> \<not> ((1::nat) > 0 \<and> req_pairs ex_rq \<noteq> []))"
    by blast
  have rwf: "Run_work ex_env_fail ex_queued = (Inr (), ex_failed)"
    by (simp add: ex_queued_def ex_failed_def ex_rq_def run_eval ms_eval ex_defs ex_env_fail_def
          ex_bcast_def)
  have y2: "y2 = ex_failed" using rw rwf by simp
  have a1: "retryTimer ex_failed = Some 2000000000"
    using rt2 ts by (simp add: y2 ex_rq_def ex_env_fail_def ex_defs)
  have a2: "\<not> timerStopped ex_failed"
    using st2 by (simp add: y2 ex_rq_def)
  have pr: "isPrimary (smap0 ex_env) (p_si ex_env)"
    by (simp add: isPrimary_def ex_env_def ex_smap_def)
  have run: "Run_timer ex_env ex_failed = (Inr (), ex_retried)"
    by (simp add: ex_retried_def ex_failed_def ex_pending_bcast_def ex_pending_msg_def run_eval
          pending_eval ms_eval ex_defs)
  have ok: "published_ok ex_failed"
    by (simp add: ex_failed_def published_ok_def ms_eval ex_defs)
  have pl: "plain_tags (map fst (last_synced ex_failed))"
    by (simp add: ex_failed_def plain_tags_def ms_eval)
  have o1: "out_of_sync ex_failed ''T1''"
    by (simp add: ex_failed_def out_of_sync_def newmetasyncer_def)
  have ne: "\<not> (\<forall>sid \<in> set (Tmap (smap0 ex_env) @ Pmap (smap0 ex_env)).
                \<not> out_of_sync ex_failed sid)"
    using o1 by (simp add: ex_env_def ex_smap_def)
  note inst = retry_timer_arming_and_pending [THEN conjunct2, THEN conjunct1, rule_format,
      OF conjI [OF a1 conjI [OF pr run]], unfolded if_not_P [OF ne]]
  from inst obtain pend where
      sp: "set pend = {sid \<in> set (Tmap (smap0 ex_env) @ Pmap (smap0 ex_env)).
                         out_of_sync ex_failed sid}"
    and b1: "published_ok ex_failed \<longrightarrow>
            (\<forall>sid \<in> set pend. sid \<noteq> p_si ex_env \<and> reply0 ex_env sid = None \<longrightarrow>
               (\<forall>(t, r) \<in> set (last_synced ex_failed).
                   delivered ex_retried sid t = Some (revs_version r)))"
    and b2: "retryTimer ex_retried
               = (if \<exists>sid \<in> set pend. sid \<noteq> p_si ex_env \<and> reply0 ex_env sid \<noteq> None
                  then Some (RetrySyncTime (Periodic (config ex_env))) else None)"
    and b3: "timerStopped ex_retried
               = (\<not> (\<exists>sid \<in> set pend. sid \<noteq> p_si ex_env \<and> reply0 ex_env sid \<noteq> None))"
    by (elim exE conjE)
  have t1: "''T1'' \<in> set pend" unfolding sp using o1 by (simp add: ex_env_def ex_smap_def)
  have r0: "\<And>sid. reply0 ex_env sid = None" by (simp add: ex_env_def)
  have "\<forall>(t, r) \<in> set (last_synced ex_failed).
           delivered ex_retried ''T1'' t = Some (revs_version r)"
    using b1 [rule_format, OF ok t1] by (simp add: r0 ex_env_def)
  then have d1: "delivered ex_retried ''T1'' bucketmdtag = Some 1"
    by (simp add: ex_failed_def ex_bmd_def)
  have d2: "retryTimer ex_retried = None" using b2 by (simp add: r0)
  have d3: "timerStopped ex_retried" using b3 by (simp add: r0)
  from q nn ds rwf a1 a2 pr run ok pl o1 d1 d2 d3 show ?thesis by simp
qed

text \<open>
  After this turn the node itself is still out of sync, since no broadcast calls it, and
  the timer is not armed: it is armed again on failed calls, not on pending nodes.
\<close>

lemma timer_stopped_with_node_pending:
  "out_of_sync ex_retried ''P0'' \<and> ''P0'' \<in> set (Pmap (smap0 ex_env))
   \<and> retryTimer ex_retried = None \<and> timerStopped ex_retried"
  by (simp add: ex_retried_def ex_failed_def out_of_sync_def ex_env_def ex_smap_def
        newmetasyncer_def)
end
